theory Spec2Isabelle
  imports Main
begin

section \<open>JavaScript strings and arrays used by the client\<close>

text \<open>
  The SMTP client of \<^verbatim>\<open>lib/smtp/client.js\<close> works on ASCII strings (the socket is
  put into the "ascii" encoding), modelled as \<^typ>\<open>string\<close>. The three library
  operations it uses are \<^verbatim>\<open>String.prototype.split\<close> with a one-character
  separator, \<^verbatim>\<open>Array.prototype.join\<close>, and a case-insensitive literal
  regular expression.
\<close>

definition CRLF :: string where
  "CRLF = [CHR 0x0D, CHR 0x0A]"

text \<open>\<^verbatim>\<open>s.split(sep)\<close>: the pieces between the separators; never an empty array.\<close>

fun str_split :: "char \<Rightarrow> string \<Rightarrow> string list" where
  "str_split sep [] = [[]]"
| "str_split sep (c # cs) =
     (if c = sep then [] # str_split sep cs
      else (case str_split sep cs of [] \<Rightarrow> [[c]] | w # ws \<Rightarrow> (c # w) # ws))"

text \<open>\<^verbatim>\<open>xs.join(sep)\<close> on an array of strings.\<close>

fun array_join :: "string \<Rightarrow> string list \<Rightarrow> string" where
  "array_join sep [] = []"
| "array_join sep [x] = x"
| "array_join sep (x # y # ys) = x @ sep @ array_join sep (y # ys)"

text \<open>
  An array that is used where a string is expected is converted by
  \<^verbatim>\<open>Array.prototype.toString\<close>, which joins the elements with a comma.
\<close>

definition array_toString :: "string list \<Rightarrow> string" where
  "array_toString xs = array_join '','' xs"

text \<open>
  A literal pattern under the \<^verbatim>\<open>i\<close> flag: two ASCII characters match when
  their upper-case forms agree. \<open>regex_test_i pat s\<close> is \<^verbatim>\<open>/pat/i.test(s)\<close>
  for a pattern of plain letters: the pattern occurs somewhere in \<open>s\<close>.
\<close>

definition ascii_upper :: "char \<Rightarrow> char" where
  "ascii_upper c =
     (let n = (of_char c :: nat) in if 97 \<le> n \<and> n \<le> 122 then char_of (n - 32) else c)"

fun match_here_i :: "string \<Rightarrow> string \<Rightarrow> bool" where
  "match_here_i [] s = True"
| "match_here_i (p # ps) [] = False"
| "match_here_i (p # ps) (c # cs) = (ascii_upper c = ascii_upper p \<and> match_here_i ps cs)"

fun regex_test_i :: "string \<Rightarrow> string \<Rightarrow> bool" where
  "regex_test_i pat [] = match_here_i pat []"
| "regex_test_i pat (c # cs) = (match_here_i pat (c # cs) \<or> regex_test_i pat cs)"

section \<open>Reply packets\<close>

text \<open>
  Modelled from the spec: the reply packet. The packet handler that builds it
  (\<^verbatim>\<open>lib/smtp/packetHandler.js\<close>) is not part of \<^verbatim>\<open>client.js\<close>, which only
  reads the object's \<^verbatim>\<open>status\<close> and \<^verbatim>\<open>data\<close>. By the specification the
  status is the three-digit reply code, in string or integer form, and the data are the
  reply's lines in order.
\<close>

datatype status_code = StatusStr string | StatusNum int

record packet =
  status :: status_code
  data :: "string list"

text \<open>
  The client compares with \<^verbatim>\<open>packet.status == "250"\<close>, JavaScript's loose
  equality against a string literal: a string is compared as a string, a number with
  the number the literal denotes. The literals of this file are plain decimal digits,
  which is all \<open>to_number\<close> reads.
\<close>

fun digits_value :: "int \<Rightarrow> string \<Rightarrow> int option" where
  "digits_value acc [] = Some acc"
| "digits_value acc (c # cs) =
     (let n = (of_char c :: nat) in
      if 48 \<le> n \<and> n \<le> 57 then digits_value (acc * 10 + int (n - 48)) cs else None)"

definition to_number :: "string \<Rightarrow> int option" where
  "to_number s = digits_value 0 s"

fun loose_eq :: "status_code \<Rightarrow> string \<Rightarrow> bool" where
  "loose_eq (StatusStr s) lit = (s = lit)"
| "loose_eq (StatusNum n) lit = (to_number lit = Some n)"

section \<open>The client object\<close>

text \<open>
  A capability is stored either as the flag \<^verbatim>\<open>true\<close> or as a string. The
  \<^verbatim>\<open>capabilities\<close> object is the plain object \<^verbatim>\<open>{}\<close> of the constructor; the
  model is the finite map of its own properties.
\<close>

datatype capval = CapTrue | CapStr string

text \<open>
  The assignment \<^verbatim>\<open>obj[key] = value\<close> on a plain object, for a value that is
  \<^verbatim>\<open>true\<close> or a string. Every key names an own property but
  \<^verbatim>\<open>__proto__\<close>: that key is the accessor inherited from
  \<^verbatim>\<open>Object.prototype\<close>, whose setter ignores a value that is neither an object
  nor null, so the assignment stores nothing.
\<close>

definition assign_property ::
  "(string \<rightharpoonup> capval) \<Rightarrow> string \<Rightarrow> capval \<Rightarrow> (string \<rightharpoonup> capval)" where
  "assign_property obj key v = (if key = ''__proto__'' then obj else obj(key \<mapsto> v))"

text \<open>
  Promises. Every operation creates a promise and returns it; the promise is later
  resolved with \<^verbatim>\<open>emitSuccess\<close> or \<^verbatim>\<open>emitError\<close>, with the reply packet or
  with no argument. The model names a promise after the operation that created it and
  records every resolution, in order, in the field \<open>outcomes\<close>.
\<close>

datatype promise =
  P_connect | P_helo | P_ehlo | P_mail | P_rcpt
  | P_beginData | P_sendData | P_endData | P_data | P_quit

datatype outcome = Success "packet option" | Failure "packet option"

text \<open>
  The callbacks the client attaches to its own promises are closures. \<open>caller\<close> says
  which closure, if any, is attached to an operation's promise: none (the operation
  was called from outside), the greeting listener of \<^verbatim>\<open>connect\<close> (which holds the
  greeting packet), or the composite \<^verbatim>\<open>data\<close> (which holds the payload).
\<close>

datatype caller = User | Connect packet | Data string

datatype verb = HELO | EHLO | MAIL | RCPT | DATA_begin | DATA_end | QUIT

text \<open>
  The one-shot listeners on the packet handler's "packet" event: the greeting listener
  of \<^verbatim>\<open>connect\<close>, and the listener of \<^verbatim>\<open>send\<close> together with the callback
  that the issuing operation attached to the promise \<^verbatim>\<open>send\<close> returned.
\<close>

datatype listener = Greeting | Sent verb caller

text \<open>
  The transport. \<open>written\<close> lists the arguments of \<^verbatim>\<open>socket.write\<close> in call
  order, \<open>ended\<close> says whether \<^verbatim>\<open>socket.end()\<close> was called, \<open>write_returns\<close>
  is the value \<^verbatim>\<open>socket.write\<close> returns (false when the kernel buffer is full),
  and \<open>drain_listeners\<close> are the one-shot "drain" listeners of \<^verbatim>\<open>sendData\<close>.
\<close>

record tcp_socket =
  written :: "string list"
  ended :: bool
  write_returns :: bool
  drain_listeners :: "caller list"

text \<open>
  The fields of \<^verbatim>\<open>Client\<close>. \<^verbatim>\<open>socket\<close> is null and \<^verbatim>\<open>host\<close>,
  \<^verbatim>\<open>port\<close> are undefined until \<^verbatim>\<open>connect\<close>; \<^verbatim>\<open>connected\<close> and
  \<^verbatim>\<open>waiting\<close> are undefined (falsy) until first assigned. \<open>next_tick\<close> holds the
  callbacks \<^verbatim>\<open>sendData\<close> gave to \<^verbatim>\<open>process.nextTick\<close>. Console output
  (the \<^verbatim>\<open>debug\<close> flag and its logging listener) is left out.
\<close>

record client =
  socket :: "tcp_socket option"
  host :: "string option"
  port :: "nat option"
  esmtp :: bool
  capabilities :: "string \<rightharpoonup> capval"
  connected :: bool
  waiting :: bool
  packet_listeners :: "listener list"
  next_tick :: "caller list"
  outcomes :: "(promise \<times> outcome) list"

definition new_Client :: client where
  "new_Client = \<lparr> socket = None, host = None, port = None, esmtp = False,
     capabilities = Map.empty, connected = False, waiting = False,
     packet_listeners = [], next_tick = [], outcomes = [] \<rparr>"

text \<open>A new connection: nothing written, open, its buffer not full, no listener.\<close>

definition new_socket :: tcp_socket where
  "new_socket = \<lparr> written = [], ended = False, write_returns = True, drain_listeners = [] \<rparr>"

text \<open>
  A call on the null socket raises a TypeError. The model returns it as a value; the
  state a raising call leaves behind is not tracked.
\<close>

datatype error = TypeError

definition emitSuccess :: "promise \<Rightarrow> packet option \<Rightarrow> client \<Rightarrow> client" where
  "emitSuccess pr arg st = st\<lparr> outcomes := outcomes st @ [(pr, Success arg)] \<rparr>"

definition emitError :: "promise \<Rightarrow> packet option \<Rightarrow> client \<Rightarrow> client" where
  "emitError pr arg st = st\<lparr> outcomes := outcomes st @ [(pr, Failure arg)] \<rparr>"

section \<open>Writing commands\<close>

definition writeline :: "string \<Rightarrow> client \<Rightarrow> error + client" where
  "writeline line st =
     (case socket st of
        None \<Rightarrow> Inl TypeError
      | Some sk \<Rightarrow> Inr (st\<lparr> socket := Some (sk\<lparr> written := written sk @ [line @ CRLF] \<rparr>) \<rparr>))"

text \<open>
  \<^verbatim>\<open>send\<close> sets \<^verbatim>\<open>waiting\<close>, registers its one-shot listener and writes the
  arguments joined by single spaces. The listener argument carries the callback that
  the caller of \<^verbatim>\<open>send\<close> attaches to the returned promise.
\<close>

definition send :: "string list \<Rightarrow> listener \<Rightarrow> client \<Rightarrow> error + client" where
  "send args l st =
     writeline (array_join '' '' args)
       (st\<lparr> waiting := True, packet_listeners := packet_listeners st @ [l] \<rparr>)"

text \<open>An undefined element of the arguments is joined as the empty string.\<close>

definition host_arg :: "client \<Rightarrow> string" where
  "host_arg st = (case host st of None \<Rightarrow> [] | Some h \<Rightarrow> h)"

section \<open>Handshaking\<close>

definition helo :: "caller \<Rightarrow> client \<Rightarrow> error + client" where
  "helo cl st = send [''HELO'', host_arg st] (Sent HELO cl) st"

definition ehlo :: "caller \<Rightarrow> client \<Rightarrow> error + client" where
  "ehlo cl st = send [''EHLO'', host_arg st] (Sent EHLO cl) st"

definition handshake :: "caller \<Rightarrow> client \<Rightarrow> error + client" where
  "handshake cl st = (if esmtp st then ehlo cl st else helo cl st)"

text \<open>
  \<^verbatim>\<open>parseCapabilities\<close>: the loop \<^verbatim>\<open>for(var i=1, j=data.length; i<j; ++i)\<close>
  over the lines, assigning into the capabilities the client already holds.
\<close>

function parseCapabilities_loop ::
  "string list \<Rightarrow> nat \<Rightarrow> nat \<Rightarrow> (string \<rightharpoonup> capval) \<Rightarrow> (string \<rightharpoonup> capval)" where
  "parseCapabilities_loop d i j caps =
     (if i < j then
        (let item = str_split (CHR '' '') (d ! i) in
         parseCapabilities_loop d (i + 1) j
           (assign_property caps (item ! 0)
              (if length item > 1 then CapStr (array_join '' '' item) else CapTrue)))
      else caps)"
  by pat_completeness auto
termination
  by (relation "measure (\<lambda>(d, i, j, caps). j - i)") auto

definition parseCapabilities :: "(string \<rightharpoonup> capval) \<Rightarrow> string list \<Rightarrow> (string \<rightharpoonup> capval)" where
  "parseCapabilities caps d = parseCapabilities_loop d 1 (length d) caps"

text \<open>
  The callback attached to the promise of \<^verbatim>\<open>handshake\<close> by the greeting listener
  resolves the promise of \<^verbatim>\<open>connect\<close> with the greeting packet.
\<close>

definition handshake_callback :: "caller \<Rightarrow> client \<Rightarrow> client" where
  "handshake_callback cl st =
     (case cl of Connect g \<Rightarrow> emitSuccess P_connect (Some g) st | _ \<Rightarrow> st)"

definition helo_callback :: "caller \<Rightarrow> packet \<Rightarrow> client \<Rightarrow> client" where
  "helo_callback cl p st =
     (if loose_eq (status p) ''250'' then
        (let st1 = st\<lparr> capabilities := parseCapabilities (capabilities st) (data p) \<rparr>;
             st2 = st1\<lparr> connected := True \<rparr>
         in handshake_callback cl (emitSuccess P_helo (Some p) st2))
      else emitError P_helo (Some p) st)"

definition ehlo_callback :: "caller \<Rightarrow> packet \<Rightarrow> client \<Rightarrow> client" where
  "ehlo_callback cl p st =
     (if loose_eq (status p) ''250'' then
        (let st1 = st\<lparr> capabilities := parseCapabilities (capabilities st) (data p) \<rparr>;
             st2 = st1\<lparr> connected := True \<rparr>
         in handshake_callback cl (emitSuccess P_ehlo (Some p) st2))
      else emitError P_ehlo (Some p) st)"

section \<open>Sending mail\<close>

definition mail :: "string \<Rightarrow> client \<Rightarrow> error + client" where
  "mail address st = send [''MAIL'', ''FROM:'', ''<'' @ address @ ''>''] (Sent MAIL User) st"

definition mail_callback :: "packet \<Rightarrow> client \<Rightarrow> client" where
  "mail_callback p st =
     (if loose_eq (status p) ''250'' then emitSuccess P_mail (Some p) st
      else emitError P_mail (Some p) st)"

definition rcpt :: "string \<Rightarrow> client \<Rightarrow> error + client" where
  "rcpt address st = send [''RCPT'', ''TO:'', ''<'' @ address @ ''>''] (Sent RCPT User) st"

definition rcpt_callback :: "packet \<Rightarrow> client \<Rightarrow> client" where
  "rcpt_callback p st =
     (if loose_eq (status p) ''250'' then emitSuccess P_rcpt (Some p) st
      else emitError P_rcpt (Some p) st)"

definition beginData :: "caller \<Rightarrow> client \<Rightarrow> error + client" where
  "beginData cl st = send [''DATA''] (Sent DATA_begin cl) st"

text \<open>
  \<^verbatim>\<open>sendData\<close> writes the payload as it is. When the write reports a full buffer
  the promise is resolved by a one-shot "drain" listener, otherwise on the next tick.
\<close>

definition sendData :: "caller \<Rightarrow> string \<Rightarrow> client \<Rightarrow> error + client" where
  "sendData cl payload st =
     (case socket st of
        None \<Rightarrow> Inl TypeError
      | Some sk \<Rightarrow>
          (let sk1 = sk\<lparr> written := written sk @ [payload] \<rparr>;
               full = (\<not> write_returns sk)
           in if full
              then Inr (st\<lparr> socket := Some (sk1\<lparr> drain_listeners := drain_listeners sk1 @ [cl] \<rparr>) \<rparr>)
              else Inr (st\<lparr> socket := Some sk1, next_tick := next_tick st @ [cl] \<rparr>)))"

definition endData :: "caller \<Rightarrow> client \<Rightarrow> error + client" where
  "endData cl st = send [CRLF @ ''.''] (Sent DATA_end cl) st"

text \<open>
  The callbacks of the composite \<^verbatim>\<open>data\<close>: after \<^verbatim>\<open>endData\<close> it resolves its
  own promise, with no argument on success and with the packet on failure.
\<close>

definition endData_callback :: "caller \<Rightarrow> packet \<Rightarrow> client \<Rightarrow> client" where
  "endData_callback cl p st =
     (if loose_eq (status p) ''250'' then
        (let st1 = emitSuccess P_endData None st
         in case cl of Data payload \<Rightarrow> emitSuccess P_data None st1 | _ \<Rightarrow> st1)
      else
        (let st1 = emitError P_endData (Some p) st
         in case cl of Data payload \<Rightarrow> emitError P_data (Some p) st1 | _ \<Rightarrow> st1))"

text \<open>Resolution of the promise of \<^verbatim>\<open>sendData\<close>; inside \<^verbatim>\<open>data\<close> it goes on to \<^verbatim>\<open>endData\<close>.\<close>

definition sendData_callback :: "caller \<Rightarrow> client \<Rightarrow> error + client" where
  "sendData_callback cl st =
     (let st1 = emitSuccess P_sendData None st
      in case cl of Data payload \<Rightarrow> endData cl st1 | _ \<Rightarrow> Inr st1)"

definition beginData_callback :: "caller \<Rightarrow> packet \<Rightarrow> client \<Rightarrow> error + client" where
  "beginData_callback cl p st =
     (if loose_eq (status p) ''354'' then
        (let st1 = emitSuccess P_beginData None st
         in case cl of Data payload \<Rightarrow> sendData cl payload st1 | _ \<Rightarrow> Inr st1)
      else
        (let st1 = emitError P_beginData (Some p) st
         in case cl of Data payload \<Rightarrow> Inr (emitError P_data (Some p) st1) | _ \<Rightarrow> Inr st1))"

text \<open>
  The composite \<^verbatim>\<open>data\<close> operation; it is named \<open>data_op\<close> here because
  \<open>data\<close> is the packet's field.
\<close>

definition data_op :: "string \<Rightarrow> client \<Rightarrow> error + client" where
  "data_op payload st = beginData (Data payload) st"

section \<open>Quit\<close>

definition quit :: "client \<Rightarrow> error + client" where
  "quit st = send [''QUIT''] (Sent QUIT User) st"

definition quit_callback :: "packet \<Rightarrow> client \<Rightarrow> error + client" where
  "quit_callback p st =
     (if loose_eq (status p) ''221'' then
        (case socket st of
           None \<Rightarrow> Inl TypeError
         | Some sk \<Rightarrow> Inr (emitSuccess P_quit None (st\<lparr> socket := Some (sk\<lparr> ended := True \<rparr>) \<rparr>)))
      else Inr (emitError P_quit None st))"

section \<open>Connecting and the delivery of events\<close>

text \<open>
  \<^verbatim>\<open>connect\<close> stores port and host, takes the new socket from
  \<^verbatim>\<open>net.createConnection\<close> (a parameter here) and registers the greeting listener.
  Transport errors (the socket's "error" event) are not among the modelled events.
\<close>

definition connect :: "nat \<Rightarrow> string \<Rightarrow> tcp_socket \<Rightarrow> client \<Rightarrow> client" where
  "connect prt h sk st =
     st\<lparr> port := Some prt, host := Some h, socket := Some sk,
         packet_listeners := packet_listeners st @ [Greeting] \<rparr>"

fun reply_callback :: "verb \<Rightarrow> caller \<Rightarrow> packet \<Rightarrow> client \<Rightarrow> error + client" where
  "reply_callback HELO cl p st = Inr (helo_callback cl p st)"
| "reply_callback EHLO cl p st = Inr (ehlo_callback cl p st)"
| "reply_callback MAIL cl p st = Inr (mail_callback p st)"
| "reply_callback RCPT cl p st = Inr (rcpt_callback p st)"
| "reply_callback DATA_begin cl p st = beginData_callback cl p st"
| "reply_callback DATA_end cl p st = Inr (endData_callback cl p st)"
| "reply_callback QUIT cl p st = quit_callback p st"

text \<open>
  One listener receiving a packet. Every listener first removes itself. The greeting
  listener checks for status 220, tests the packet's data against
  \<^verbatim>\<open>/ESMTP/i\<close> and starts the handshake. The listener of \<^verbatim>\<open>send\<close> resolves its
  promise, which runs the attached callback, and then clears \<^verbatim>\<open>waiting\<close>.
\<close>

definition fire :: "listener \<Rightarrow> packet \<Rightarrow> client \<Rightarrow> error + client" where
  "fire l p st =
     (let st0 = st\<lparr> packet_listeners := remove1 l (packet_listeners st) \<rparr> in
      case l of
        Greeting \<Rightarrow>
          (if loose_eq (status p) ''220'' then
             handshake (Connect p)
               (if regex_test_i ''ESMTP'' (array_toString (data p)) then st0\<lparr> esmtp := True \<rparr> else st0)
           else Inr (emitError P_connect (Some p) st0))
      | Sent v cl \<Rightarrow>
          (case reply_callback v cl p st0 of
             Inl e \<Rightarrow> Inl e
           | Inr st1 \<Rightarrow> Inr (st1\<lparr> waiting := False \<rparr>)))"

text \<open>
  The "packet" event calls the listeners that were registered when it was emitted, in
  registration order; an exception ends the delivery.
\<close>

fun emit_packet :: "listener list \<Rightarrow> packet \<Rightarrow> client \<Rightarrow> error + client" where
  "emit_packet [] p st = Inr st"
| "emit_packet (l # ls) p st =
     (case fire l p st of Inl e \<Rightarrow> Inl e | Inr st1 \<Rightarrow> emit_packet ls p st1)"

definition on_packet :: "packet \<Rightarrow> client \<Rightarrow> error + client" where
  "on_packet p st = emit_packet (packet_listeners st) p st"

fun run_callbacks :: "caller list \<Rightarrow> client \<Rightarrow> error + client" where
  "run_callbacks [] st = Inr st"
| "run_callbacks (cl # cls) st =
     (case sendData_callback cl st of Inl e \<Rightarrow> Inl e | Inr st1 \<Rightarrow> run_callbacks cls st1)"

text \<open>The socket's "drain" event: its listeners remove themselves and resolve their promises.\<close>

definition on_drain :: "client \<Rightarrow> error + client" where
  "on_drain st =
     (case socket st of
        None \<Rightarrow> Inr st
      | Some sk \<Rightarrow>
          run_callbacks (drain_listeners sk) (st\<lparr> socket := Some (sk\<lparr> drain_listeners := [] \<rparr>) \<rparr>))"

text \<open>The next tick of the event loop runs the callbacks queued so far.\<close>

definition on_tick :: "client \<Rightarrow> error + client" where
  "on_tick st = run_callbacks (next_tick st) (st\<lparr> next_tick := [] \<rparr>)"

datatype event = PacketEv packet | DrainEv | TickEv

fun deliver :: "event \<Rightarrow> client \<Rightarrow> error + client" where
  "deliver (PacketEv p) st = on_packet p st"
| "deliver DrainEv st = on_drain st"
| "deliver TickEv st = on_tick st"

fun run :: "event list \<Rightarrow> client \<Rightarrow> error + client" where
  "run [] st = Inr st"
| "run (e # es) st = (case deliver e st of Inl x \<Rightarrow> Inl x | Inr st1 \<Rightarrow> run es st1)"

section \<open>Sequencing calls and events\<close>

text \<open>
  A session is a sequence of calls and events; \<open>and_then\<close> passes the state on and
  stops at an exception. \<open>observe\<close> reads a field of the state a sequence ends in.
\<close>

definition and_then :: "error + client \<Rightarrow> (client \<Rightarrow> error + client) \<Rightarrow> error + client" where
  "and_then r f = (case r of Inl e \<Rightarrow> Inl e | Inr st \<Rightarrow> f st)"

definition observe :: "(client \<Rightarrow> 'a) \<Rightarrow> error + client \<Rightarrow> 'a option" where
  "observe f r = (case r of Inl e \<Rightarrow> None | Inr st \<Rightarrow> Some (f st))"

text \<open>Nothing is pending: no packet listener, no queued callback, no drain listener.\<close>

definition idle :: "client \<Rightarrow> bool" where
  "idle st =
     (packet_listeners st = [] \<and> next_tick st = [] \<and>
      (case socket st of None \<Rightarrow> True | Some sk \<Rightarrow> drain_listeners sk = []))"

text \<open>The body of the loop of \<^verbatim>\<open>parseCapabilities\<close>, named for the proofs about it.\<close>

definition store_line :: "string \<Rightarrow> (string \<rightharpoonup> capval) \<Rightarrow> (string \<rightharpoonup> capval)" where
  "store_line l caps =
     (let item = str_split (CHR '' '') l in
      assign_property caps (item ! 0)
        (if length item > 1 then CapStr (array_join '' '' item) else CapTrue))"

section \<open>The reply assembler\<close>

text \<open>
  Modelled from the spec: the reply assembler (the packet handler,
  \<^verbatim>\<open>lib/smtp/packetHandler.js\<close>, which \<^verbatim>\<open>client.js\<close> only requires). The
  specification gives its contract: lines are delimited by CRLF; a chunk may end in the
  middle of a line, and the unterminated suffix is retained and prepended to the next
  chunk; a line is three status characters followed by \<^verbatim>\<open>-\<close> for a continuation
  or by a space or nothing for the final line of a reply; the lines of a packet have
  the status prefix and the marker stripped; malformed lines are included as they are;
  packets are emitted in order and only when complete. The packet takes the status of
  its final line.
\<close>

text \<open>
  Modelled from the spec: line framing. The first complete line of a buffer and what
  follows its CRLF.
\<close>

fun take_line :: "string \<Rightarrow> (string \<times> string) option" where
  "take_line [] = None"
| "take_line [c] = None"
| "take_line (c # d # cs) =
     (if c = CHR 0x0D \<and> d = CHR 0x0A then Some ([], cs)
      else (case take_line (d # cs) of None \<Rightarrow> None | Some (l, r) \<Rightarrow> Some (c # l, r)))"

text \<open>
  Modelled from the spec: line framing. All complete lines of a buffer, and the
  unterminated rest that is retained.
\<close>

function split_lines :: "string \<Rightarrow> string list \<times> string" where
  "split_lines s =
     (case take_line s of
        None \<Rightarrow> ([], s)
      | Some (l, r) \<Rightarrow> (let (ls, rest) = split_lines r in (l # ls, rest)))"
  by pat_completeness auto
termination
proof (relation "measure length")
  show "wf (measure length)" by simp
next
  fix s :: string and x2 l r
  assume "take_line s = Some x2" and "(l, r) = x2"
  then have "take_line s = Some (l, r)" by simp
  then have "length r < length s"
    by (induction s arbitrary: l r rule: take_line.induct) (auto split: if_splits option.splits)
  then show "(r, s) \<in> measure length" by simp
qed

text \<open>
  Modelled from the spec: the assembler's state, the retained suffix and the lines of the
  reply in progress.
\<close>

record assembler =
  buffer :: string
  pending :: "string list"

definition new_assembler :: assembler where
  "new_assembler = \<lparr> buffer = [], pending = [] \<rparr>"

text \<open>Modelled from the spec: a line continues the reply when a hyphen follows its status.\<close>

definition is_continuation :: "string \<Rightarrow> bool" where
  "is_continuation line = (3 < length line \<and> line ! 3 = CHR ''-'')"

text \<open>
  Modelled from the spec: one complete line extends the reply in progress, or completes
  it and emits the packet.
\<close>

fun add_line :: "string \<Rightarrow> string list \<times> packet list \<Rightarrow> string list \<times> packet list" where
  "add_line line (pend, out) =
     (if is_continuation line then (pend @ [drop 4 line], out)
      else ([], out @ [\<lparr> status = StatusStr (take 3 line), data = pend @ [drop 4 line] \<rparr>]))"

text \<open>
  Modelled from the spec: \<^verbatim>\<open>feed(bytes)\<close>. The chunk is appended to the retained
  suffix, the complete lines are processed in order, and the packets completed by this
  chunk are emitted.
\<close>

definition feed :: "string \<Rightarrow> assembler \<Rightarrow> assembler \<times> packet list" where
  "feed chunk a =
     (let (ls, rest) = split_lines (buffer a @ chunk);
          (pend, out) = fold add_line ls (pending a, [])
      in (\<lparr> buffer = rest, pending = pend \<rparr>, out))"

text \<open>Feeding chunks one after the other, collecting the packets emitted.\<close>

fun feed_all :: "string list \<Rightarrow> assembler \<Rightarrow> assembler \<times> packet list" where
  "feed_all [] a = (a, [])"
| "feed_all (c # cs) a =
     (let (a1, out1) = feed c a; (a2, out2) = feed_all cs a1 in (a2, out1 @ out2))"

declare parseCapabilities_loop.simps [simp del]
declare split_lines.simps [simp del]

section \<open>Facts about split and join\<close>

lemma str_split_not_Nil: "str_split sep s \<noteq> []"
  by (induction s) (auto split: list.splits)

lemma str_split_Cons_eq: "\<exists>w ws. str_split sep s = w # ws"
  using str_split_not_Nil[of sep s] by (cases "str_split sep s") auto

text \<open>Joining the pieces with the separator gives the string back.\<close>

lemma join_split: "array_join [sep] (str_split sep s) = s"
proof (induction s)
  case Nil
  then show ?case by simp
next
  case (Cons c cs)
  obtain w ws where sp: "str_split sep cs = w # ws"
    using str_split_Cons_eq by blast
  show ?case using Cons sp by (cases ws) auto
qed

lemma split_hd: "hd (str_split sep s) = takeWhile (\<lambda>c. c \<noteq> sep) s"
proof (induction s)
  case Nil
  then show ?case by simp
next
  case (Cons c cs)
  obtain w ws where sp: "str_split sep cs = w # ws"
    using str_split_Cons_eq by blast
  show ?case using Cons sp by simp
qed

lemma split_length: "(1 < length (str_split sep s)) = (sep \<in> set s)"
proof (induction s)
  case Nil
  then show ?case by simp
next
  case (Cons c cs)
  obtain w ws where sp: "str_split sep cs = w # ws"
    using str_split_Cons_eq by blast
  show ?case using Cons sp by auto
qed

section \<open>Facts about the status comparison and the greeting test\<close>

lemma loose_eq_220: "loose_eq s ''220'' = (s = StatusStr ''220'' \<or> s = StatusNum 220)"
  by (cases s) (auto simp: to_number_def)

lemma loose_eq_221: "loose_eq s ''221'' = (s = StatusStr ''221'' \<or> s = StatusNum 221)"
  by (cases s) (auto simp: to_number_def)

lemma loose_eq_250: "loose_eq s ''250'' = (s = StatusStr ''250'' \<or> s = StatusNum 250)"
  by (cases s) (auto simp: to_number_def)

lemma loose_eq_354: "loose_eq s ''354'' = (s = StatusStr ''354'' \<or> s = StatusNum 354)"
  by (cases s) (auto simp: to_number_def)

lemma match_here_i_iff:
  "match_here_i pat s = (\<exists>mid post. s = mid @ post \<and> map ascii_upper mid = map ascii_upper pat)"
proof (induction pat s rule: match_here_i.induct)
  case (1 s)
  then show ?case by simp
next
  case (2 p ps)
  then show ?case by simp
next
  case (3 p ps c cs)
  show ?case
  proof
    assume "match_here_i (p # ps) (c # cs)"
    then obtain mid post where "ascii_upper c = ascii_upper p" "cs = mid @ post"
        "map ascii_upper mid = map ascii_upper ps"
      using 3 by auto
    then have "c # cs = (c # mid) @ post \<and> map ascii_upper (c # mid) = map ascii_upper (p # ps)"
      by simp
    then show "\<exists>mid post. c # cs = mid @ post \<and> map ascii_upper mid = map ascii_upper (p # ps)"
      by blast
  next
    assume "\<exists>mid post. c # cs = mid @ post \<and> map ascii_upper mid = map ascii_upper (p # ps)"
    then obtain mid post where m: "c # cs = mid @ post" "map ascii_upper mid = map ascii_upper (p # ps)"
      by blast
    then obtain m ms where mid: "mid = m # ms" by (cases mid) auto
    with m have "m = c" "cs = ms @ post" "ascii_upper m = ascii_upper p"
        "map ascii_upper ms = map ascii_upper ps"
      by auto
    then show "match_here_i (p # ps) (c # cs)" using 3 by auto
  qed
qed

text \<open>The test succeeds exactly when the pattern occurs as a substring, up to case.\<close>

lemma regex_test_i_iff:
  "regex_test_i pat s =
     (\<exists>pre mid post. s = pre @ mid @ post \<and> map ascii_upper mid = map ascii_upper pat)"
proof (induction s)
  case Nil
  then show ?case by (auto simp: match_here_i_iff)
next
  case (Cons c cs)
  show ?case
  proof
    assume "regex_test_i pat (c # cs)"
    then consider "match_here_i pat (c # cs)" | "regex_test_i pat cs" by auto
    then show "\<exists>pre mid post. c # cs = pre @ mid @ post \<and> map ascii_upper mid = map ascii_upper pat"
    proof cases
      case 1
      then obtain mid post where "c # cs = [] @ mid @ post" "map ascii_upper mid = map ascii_upper pat"
        by (auto simp: match_here_i_iff)
      then show ?thesis by blast
    next
      case 2
      then obtain pre mid post where "cs = pre @ mid @ post" "map ascii_upper mid = map ascii_upper pat"
        using Cons by blast
      then have "c # cs = (c # pre) @ mid @ post \<and> map ascii_upper mid = map ascii_upper pat" by simp
      then show ?thesis by blast
    qed
  next
    assume "\<exists>pre mid post. c # cs = pre @ mid @ post \<and> map ascii_upper mid = map ascii_upper pat"
    then obtain pre mid post where m: "c # cs = pre @ mid @ post" "map ascii_upper mid = map ascii_upper pat"
      by blast
    show "regex_test_i pat (c # cs)"
    proof (cases pre)
      case Nil
      then have "match_here_i pat (c # cs)" using m by (auto simp: match_here_i_iff)
      then show ?thesis by simp
    next
      case (Cons a pre')
      then have "cs = pre' @ mid @ post" using m by simp
      then have "regex_test_i pat cs" using m(2) Cons.IH by blast
      then show ?thesis by simp
    qed
  qed
qed

text \<open>A character that matches no character of the pattern separates the search.\<close>

lemma match_here_i_sep:
  "\<forall>p \<in> set pat. ascii_upper c \<noteq> ascii_upper p \<Longrightarrow>
   match_here_i pat (a @ c # b) = match_here_i pat a"
  by (induction pat a rule: match_here_i.induct) auto

lemma regex_test_i_sep:
  "pat \<noteq> [] \<Longrightarrow> \<forall>p \<in> set pat. ascii_upper c \<noteq> ascii_upper p \<Longrightarrow>
   regex_test_i pat (a @ c # b) = (regex_test_i pat a \<or> regex_test_i pat b)"
proof (induction a)
  case Nil
  then show ?case using match_here_i_sep[of pat c "[]" b] by (cases pat) auto
next
  case (Cons x a)
  then show ?case using match_here_i_sep[of pat c "x # a" b] by auto
qed

lemma regex_test_i_toString:
  "pat \<noteq> [] \<Longrightarrow> \<forall>p \<in> set pat. ascii_upper (CHR '','') \<noteq> ascii_upper p \<Longrightarrow>
   regex_test_i pat (array_toString ls) = (\<exists>l \<in> set ls. regex_test_i pat l)"
proof (induction ls rule: induct_list012)
  case 1
  then show ?case by (cases pat) (auto simp: array_toString_def)
next
  case (2 x)
  then show ?case by (simp add: array_toString_def)
next
  case (3 x y ys)
  then show ?case using regex_test_i_sep[of pat "CHR '',''" x "array_join '','' (y # ys)"]
    by (simp add: array_toString_def)
qed

text \<open>The greeting test on the packet's data: some line contains ESMTP, in any case.\<close>

lemma esmtp_lines:
  "regex_test_i ''ESMTP'' (array_toString ls) =
     (\<exists>l \<in> set ls. \<exists>pre mid post. l = pre @ mid @ post \<and> map ascii_upper mid = ''ESMTP'')"
proof -
  have "regex_test_i ''ESMTP'' (array_toString ls) = (\<exists>l \<in> set ls. regex_test_i ''ESMTP'' l)"
    by (rule regex_test_i_toString) (simp_all add: ascii_upper_def)
  also have "\<dots> = (\<exists>l \<in> set ls. \<exists>pre mid post. l = pre @ mid @ post \<and> map ascii_upper mid = ''ESMTP'')"
    by (simp add: regex_test_i_iff ascii_upper_def)
  finally show ?thesis .
qed

text \<open>
  What the upper-casing does to a letter: a character is mapped to \<open>E\<close> exactly when it
  is \<open>E\<close> or \<open>e\<close>, and likewise for the other letters of the pattern. So a line
  passes the test exactly when it holds five consecutive characters that are the
  letters of ESMTP, each one in either case.
\<close>

lemma of_char_ascii_upper:
  "(of_char (ascii_upper c) :: nat) =
     (if 97 \<le> (of_char c :: nat) \<and> (of_char c :: nat) \<le> 122 then of_char c - 32 else of_char c)"
proof (cases "97 \<le> (of_char c :: nat) \<and> (of_char c :: nat) \<le> 122")
  case True
  then have "(of_char c - 32 :: nat) < 256" by arith
  then have "(of_char c - 32 :: nat) mod 256 = of_char c - 32" by (rule mod_less)
  with True show ?thesis by (simp add: ascii_upper_def Let_def)
next
  case False
  then have "ascii_upper c = c" by (auto simp: ascii_upper_def Let_def)
  with False show ?thesis by auto
qed

lemma ascii_upper_eq_iff:
  assumes "(of_char u :: nat) < 97 \<or> 122 < (of_char u :: nat)"
  shows "(ascii_upper c = u) =
     (c = u \<or> (of_char c :: nat) = of_char u + 32 \<and> 65 \<le> (of_char u :: nat) \<and> (of_char u :: nat) \<le> 90)"
proof -
  have "(ascii_upper c = u) = ((of_char (ascii_upper c) :: nat) = of_char u)"
    by simp
  also have "\<dots> = (c = u \<or> (of_char c :: nat) = of_char u + 32 \<and> 65 \<le> (of_char u :: nat) \<and> (of_char u :: nat) \<le> 90)"
    using assms by (auto simp: of_char_ascii_upper)
  finally show ?thesis .
qed

lemma of_char_eq_numeral: "((of_char c :: nat) = of_char d) = (c = d)"
  by simp

lemma ascii_upper_E: "(ascii_upper c = CHR ''E'') = (c = CHR ''E'' \<or> c = CHR ''e'')"
  using ascii_upper_eq_iff[of "CHR ''E''" c] of_char_eq_numeral[of c "CHR ''e''"] by simp

lemma ascii_upper_S: "(ascii_upper c = CHR ''S'') = (c = CHR ''S'' \<or> c = CHR ''s'')"
  using ascii_upper_eq_iff[of "CHR ''S''" c] of_char_eq_numeral[of c "CHR ''s''"] by simp

lemma ascii_upper_M: "(ascii_upper c = CHR ''M'') = (c = CHR ''M'' \<or> c = CHR ''m'')"
  using ascii_upper_eq_iff[of "CHR ''M''" c] of_char_eq_numeral[of c "CHR ''m''"] by simp

lemma ascii_upper_T: "(ascii_upper c = CHR ''T'') = (c = CHR ''T'' \<or> c = CHR ''t'')"
  using ascii_upper_eq_iff[of "CHR ''T''" c] of_char_eq_numeral[of c "CHR ''t''"] by simp

lemma ascii_upper_P: "(ascii_upper c = CHR ''P'') = (c = CHR ''P'' \<or> c = CHR ''p'')"
  using ascii_upper_eq_iff[of "CHR ''P''" c] of_char_eq_numeral[of c "CHR ''p''"] by simp

lemma map_eq_five:
  "(map f mid = [a1, a2, a3, a4, a5]) =
     (\<exists>c1 c2 c3 c4 c5. mid = [c1, c2, c3, c4, c5] \<and> f c1 = a1 \<and> f c2 = a2 \<and> f c3 = a3
        \<and> f c4 = a4 \<and> f c5 = a5)"
proof
  assume "map f mid = [a1, a2, a3, a4, a5]"
  then obtain c1 r1 where 1: "mid = c1 # r1" "f c1 = a1" "map f r1 = [a2, a3, a4, a5]"
    by (auto simp: map_eq_Cons_conv)
  then obtain c2 r2 where 2: "r1 = c2 # r2" "f c2 = a2" "map f r2 = [a3, a4, a5]"
    by (auto simp: map_eq_Cons_conv)
  then obtain c3 r3 where 3: "r2 = c3 # r3" "f c3 = a3" "map f r3 = [a4, a5]"
    by (auto simp: map_eq_Cons_conv)
  then obtain c4 r4 where 4: "r3 = c4 # r4" "f c4 = a4" "map f r4 = [a5]"
    by (auto simp: map_eq_Cons_conv)
  then obtain c5 where 5: "r4 = [c5]" "f c5 = a5"
    by (auto simp: map_eq_Cons_conv)
  have "mid = [c1, c2, c3, c4, c5]" using 1 2 3 4 5 by simp
  with 1 2 3 4 5 show "\<exists>c1 c2 c3 c4 c5. mid = [c1, c2, c3, c4, c5] \<and> f c1 = a1 \<and> f c2 = a2 \<and> f c3 = a3
        \<and> f c4 = a4 \<and> f c5 = a5"
    by blast
next
  assume "\<exists>c1 c2 c3 c4 c5. mid = [c1, c2, c3, c4, c5] \<and> f c1 = a1 \<and> f c2 = a2 \<and> f c3 = a3
        \<and> f c4 = a4 \<and> f c5 = a5"
  then show "map f mid = [a1, a2, a3, a4, a5]" by auto
qed


lemma esmtp_any_case:
  "(map ascii_upper mid = ''ESMTP'') =
     (\<exists>c1 c2 c3 c4 c5. mid = [c1, c2, c3, c4, c5]
        \<and> (c1 = CHR ''E'' \<or> c1 = CHR ''e'') \<and> (c2 = CHR ''S'' \<or> c2 = CHR ''s'')
        \<and> (c3 = CHR ''M'' \<or> c3 = CHR ''m'') \<and> (c4 = CHR ''T'' \<or> c4 = CHR ''t'')
        \<and> (c5 = CHR ''P'' \<or> c5 = CHR ''p''))"
  by (simp only: map_eq_five ascii_upper_E ascii_upper_S ascii_upper_M ascii_upper_T ascii_upper_P)

lemma esmtp_line_letters:
  assumes "\<exists>pre mid post. l = pre @ mid @ post \<and> map ascii_upper mid = ''ESMTP''"
  shows "\<exists>pre post c1 c2 c3 c4 c5. l = pre @ [c1, c2, c3, c4, c5] @ post
        \<and> (c1 = CHR ''E'' \<or> c1 = CHR ''e'') \<and> (c2 = CHR ''S'' \<or> c2 = CHR ''s'')
        \<and> (c3 = CHR ''M'' \<or> c3 = CHR ''m'') \<and> (c4 = CHR ''T'' \<or> c4 = CHR ''t'')
        \<and> (c5 = CHR ''P'' \<or> c5 = CHR ''p'')"
proof -
  from assms obtain pre mid post where l: "l = pre @ mid @ post" and m: "map ascii_upper mid = ''ESMTP''"
    by (elim exE conjE)
  from m have "\<exists>c1 c2 c3 c4 c5. mid = [c1, c2, c3, c4, c5]
        \<and> (c1 = CHR ''E'' \<or> c1 = CHR ''e'') \<and> (c2 = CHR ''S'' \<or> c2 = CHR ''s'')
        \<and> (c3 = CHR ''M'' \<or> c3 = CHR ''m'') \<and> (c4 = CHR ''T'' \<or> c4 = CHR ''t'')
        \<and> (c5 = CHR ''P'' \<or> c5 = CHR ''p'')"
    by (simp only: esmtp_any_case)
  then obtain c1 c2 c3 c4 c5 where mid: "mid = [c1, c2, c3, c4, c5]"
      and c1: "c1 = CHR ''E'' \<or> c1 = CHR ''e''" and c2: "c2 = CHR ''S'' \<or> c2 = CHR ''s''"
      and c3: "c3 = CHR ''M'' \<or> c3 = CHR ''m''" and c4: "c4 = CHR ''T'' \<or> c4 = CHR ''t''"
      and c5: "c5 = CHR ''P'' \<or> c5 = CHR ''p''"
    by (elim exE conjE)
  have "l = pre @ [c1, c2, c3, c4, c5] @ post" using l mid by (simp only:)
  then show ?thesis
    using c1 c2 c3 c4 c5
    by (intro exI[of _ pre] exI[of _ post] exI[of _ c1] exI[of _ c2] exI[of _ c3] exI[of _ c4]
          exI[of _ c5] conjI)
qed

lemma esmtp_line_letters_rev:
  assumes "\<exists>pre post c1 c2 c3 c4 c5. l = pre @ [c1, c2, c3, c4, c5] @ post
        \<and> (c1 = CHR ''E'' \<or> c1 = CHR ''e'') \<and> (c2 = CHR ''S'' \<or> c2 = CHR ''s'')
        \<and> (c3 = CHR ''M'' \<or> c3 = CHR ''m'') \<and> (c4 = CHR ''T'' \<or> c4 = CHR ''t'')
        \<and> (c5 = CHR ''P'' \<or> c5 = CHR ''p'')"
  shows "\<exists>pre mid post. l = pre @ mid @ post \<and> map ascii_upper mid = ''ESMTP''"
proof -
  from assms obtain pre post c1 c2 c3 c4 c5 where l: "l = pre @ [c1, c2, c3, c4, c5] @ post"
      and c1: "c1 = CHR ''E'' \<or> c1 = CHR ''e''" and c2: "c2 = CHR ''S'' \<or> c2 = CHR ''s''"
      and c3: "c3 = CHR ''M'' \<or> c3 = CHR ''m''" and c4: "c4 = CHR ''T'' \<or> c4 = CHR ''t''"
      and c5: "c5 = CHR ''P'' \<or> c5 = CHR ''p''"
    by (elim exE conjE)
  have "\<exists>d1 d2 d3 d4 d5. [c1, c2, c3, c4, c5] = [d1, d2, d3, d4, d5]
        \<and> (d1 = CHR ''E'' \<or> d1 = CHR ''e'') \<and> (d2 = CHR ''S'' \<or> d2 = CHR ''s'')
        \<and> (d3 = CHR ''M'' \<or> d3 = CHR ''m'') \<and> (d4 = CHR ''T'' \<or> d4 = CHR ''t'')
        \<and> (d5 = CHR ''P'' \<or> d5 = CHR ''p'')"
    using c1 c2 c3 c4 c5
    by (intro exI[of _ c1] exI[of _ c2] exI[of _ c3] exI[of _ c4] exI[of _ c5] conjI refl)
  then have m: "map ascii_upper [c1, c2, c3, c4, c5] = ''ESMTP''"
    by (simp only: esmtp_any_case)
  show ?thesis
    using l m by (intro exI[of _ pre] exI[of _ "[c1, c2, c3, c4, c5]"] exI[of _ post] conjI)
qed

lemma esmtp_line_any_case:
  "(\<exists>pre mid post. l = pre @ mid @ post \<and> map ascii_upper mid = ''ESMTP'') =
     (\<exists>pre post c1 c2 c3 c4 c5. l = pre @ [c1, c2, c3, c4, c5] @ post
        \<and> (c1 = CHR ''E'' \<or> c1 = CHR ''e'') \<and> (c2 = CHR ''S'' \<or> c2 = CHR ''s'')
        \<and> (c3 = CHR ''M'' \<or> c3 = CHR ''m'') \<and> (c4 = CHR ''T'' \<or> c4 = CHR ''t'')
        \<and> (c5 = CHR ''P'' \<or> c5 = CHR ''p''))"
  by (rule iffI) (erule esmtp_line_letters, erule esmtp_line_letters_rev)

lemma esmtp_lines_any_case:
  "regex_test_i ''ESMTP'' (array_toString ls) =
     (\<exists>l \<in> set ls. \<exists>pre post c1 c2 c3 c4 c5. l = pre @ [c1, c2, c3, c4, c5] @ post
        \<and> (c1 = CHR ''E'' \<or> c1 = CHR ''e'') \<and> (c2 = CHR ''S'' \<or> c2 = CHR ''s'')
        \<and> (c3 = CHR ''M'' \<or> c3 = CHR ''m'') \<and> (c4 = CHR ''T'' \<or> c4 = CHR ''t'')
        \<and> (c5 = CHR ''P'' \<or> c5 = CHR ''p''))"
  by (simp only: esmtp_lines esmtp_line_any_case)

section \<open>Facts about capability parsing\<close>

lemma store_line_apply:
  "store_line l caps k =
     (if hd (str_split (CHR '' '') l) = k \<and> k \<noteq> ''__proto__''
      then Some (if 1 < length (str_split (CHR '' '') l) then CapStr l else CapTrue)
      else caps k)"
proof -
  have key: "str_split (CHR '' '') l ! 0 = hd (str_split (CHR '' '') l)"
    using str_split_not_Nil[of "CHR '' ''" l] by (simp add: hd_conv_nth)
  have val: "array_join '' '' (str_split (CHR '' '') l) = l"
    using join_split[of "CHR '' ''" l] by simp
  show ?thesis by (auto simp: store_line_def assign_property_def Let_def key val)
qed

text \<open>The loop from index \<open>i\<close> stores the lines from \<open>i\<close> on, in order.\<close>

lemma parseCapabilities_loop_fold:
  "j = length d \<Longrightarrow> parseCapabilities_loop d i j caps = fold store_line (drop i d) caps"
proof (induction d i j caps rule: parseCapabilities_loop.induct)
  case (1 d i j caps)
  show ?case
  proof (cases "i < j")
    case True
    then have dr: "drop i d = d ! i # drop (Suc i) d"
      using 1(2) by (simp add: Cons_nth_drop_Suc)
    have body: "store_line (d ! i) caps =
        assign_property caps (str_split (CHR '' '') (d ! i) ! 0)
          (if length (str_split (CHR '' '') (d ! i)) > 1
           then CapStr (array_join '' '' (str_split (CHR '' '') (d ! i))) else CapTrue)"
      by (simp add: store_line_def Let_def)
    have "parseCapabilities_loop d i j caps =
        parseCapabilities_loop d (i + 1) j (store_line (d ! i) caps)"
      using True by (subst parseCapabilities_loop.simps) (simp add: body Let_def)
    also have "\<dots> = fold store_line (drop (i + 1) d) (store_line (d ! i) caps)"
      unfolding body by (rule 1(1)[OF True refl 1(2)])
    finally show ?thesis using dr by simp
  next
    case False
    then show ?thesis using 1(2) by (subst parseCapabilities_loop.simps) simp
  qed
qed

lemma find_snoc:
  "find P (xs @ [x]) =
     (case find P xs of None \<Rightarrow> (if P x then Some x else None) | Some y \<Rightarrow> Some y)"
  by (induction xs) auto

lemma fold_store_line_lookup:
  "fold store_line ls caps k =
     (if k = ''__proto__'' then caps k
      else case find (\<lambda>l. hd (str_split (CHR '' '') l) = k) (rev ls) of
        None \<Rightarrow> caps k
      | Some l \<Rightarrow> Some (if 1 < length (str_split (CHR '' '') l) then CapStr l else CapTrue))"
proof (induction ls arbitrary: caps)
  case Nil
  then show ?case by simp
next
  case (Cons l ls)
  have "fold store_line (l # ls) caps k = fold store_line ls (store_line l caps) k"
    by simp
  also have "\<dots> =
     (if k = ''__proto__'' then store_line l caps k
      else case find (\<lambda>l. hd (str_split (CHR '' '') l) = k) (rev ls) of
        None \<Rightarrow> store_line l caps k
      | Some l \<Rightarrow> Some (if 1 < length (str_split (CHR '' '') l) then CapStr l else CapTrue))"
    by (rule Cons.IH)
  also have "\<dots> =
     (if k = ''__proto__'' then caps k
      else case find (\<lambda>l. hd (str_split (CHR '' '') l) = k) (rev (l # ls)) of
        None \<Rightarrow> caps k
      | Some l \<Rightarrow> Some (if 1 < length (str_split (CHR '' '') l) then CapStr l else CapTrue))"
    by (simp add: find_snoc store_line_apply split: option.splits)
  finally show ?case .
qed

text \<open>
  What a key holds after parsing: the last line after the first whose first token is
  the key decides; without such a line the earlier entry stays. Under the key
  \<^verbatim>\<open>__proto__\<close> no line stores anything.
\<close>

lemma parseCapabilities_lookup:
  "parseCapabilities caps ls k =
     (if k = ''__proto__'' then caps k
      else case find (\<lambda>l. hd (str_split (CHR '' '') l) = k) (rev (tl ls)) of
        None \<Rightarrow> caps k
      | Some l \<Rightarrow> Some (if 1 < length (str_split (CHR '' '') l) then CapStr l else CapTrue))"
  by (simp add: parseCapabilities_def parseCapabilities_loop_fold fold_store_line_lookup drop_Suc)

lemma parseCapabilities_add:
  "parseCapabilities caps ls = caps ++ parseCapabilities Map.empty ls"
  by (rule ext) (simp add: parseCapabilities_lookup map_add_def split: option.splits)

section \<open>Facts about single commands and their replies\<close>

text \<open>The definitions that evaluating a concrete session unfolds.\<close>

lemmas session_defs = and_then_def observe_def connect_def on_packet_def fire_def handshake_def
  helo_def ehlo_def mail_def quit_def send_def writeline_def host_arg_def helo_callback_def ehlo_callback_def
  handshake_callback_def mail_callback_def quit_callback_def emitSuccess_def emitError_def
  rcpt_def rcpt_callback_def beginData_def endData_def beginData_callback_def endData_callback_def
  new_Client_def new_socket_def array_toString_def ascii_upper_def CRLF_def Let_def

lemma and_then_Inl: "and_then (Inl e) f = Inl e"
  by (simp add: and_then_def)

lemma and_then_Inr: "and_then (Inr st) f = f st"
  by (simp add: and_then_def)

lemma observe_Inr: "observe f (Inr st) = Some (f st)"
  by (simp add: observe_def)

lemma send_ok:
  "socket st = Some sk \<Longrightarrow>
   send args l st = Inr (st\<lparr> waiting := True, packet_listeners := packet_listeners st @ [l],
      socket := Some (sk\<lparr> written := written sk @ [array_join '' '' args @ CRLF] \<rparr>) \<rparr>)"
  by (simp add: send_def writeline_def)

text \<open>
  Each lemma below follows one command issued on a session with no reply outstanding
  through the arrival of the next packet.
\<close>

lemma mail_run:
  assumes "packet_listeners st = []" "socket st = Some sk"
  shows "and_then (mail address st) (on_packet p) =
     Inr (st\<lparr> waiting := False,
        socket := Some (sk\<lparr> written := written sk @
           [''MAIL FROM: <'' @ address @ ''>'' @ [CHR 0x0D, CHR 0x0A]] \<rparr>),
        outcomes := outcomes st @
           [(P_mail, if loose_eq (status p) ''250'' then Success (Some p) else Failure (Some p))] \<rparr>)"
  using assms
  by (simp add: and_then_Inr mail_def send_ok on_packet_def fire_def mail_callback_def
        emitSuccess_def emitError_def CRLF_def)

lemma quit_run:
  assumes "packet_listeners st = []" "socket st = Some sk"
  shows "and_then (quit st) (on_packet p) =
     Inr (st\<lparr> waiting := False,
        socket := Some (sk\<lparr> written := written sk @ [''QUIT'' @ [CHR 0x0D, CHR 0x0A]],
                           ended := (ended sk \<or> loose_eq (status p) ''221'') \<rparr>),
        outcomes := outcomes st @
           [(P_quit, if loose_eq (status p) ''221'' then Success None else Failure None)] \<rparr>)"
  using assms
  by (simp add: and_then_Inr quit_def send_ok on_packet_def fire_def quit_callback_def
        emitSuccess_def emitError_def CRLF_def)

lemma helo_run:
  assumes "packet_listeners st = []" "socket st = Some sk"
  shows "and_then (helo User st) (on_packet p) =
     Inr (st\<lparr> waiting := False,
        socket := Some (sk\<lparr> written := written sk @ [''HELO '' @ host_arg st @ [CHR 0x0D, CHR 0x0A]] \<rparr>),
        capabilities := (if loose_eq (status p) ''250''
           then parseCapabilities (capabilities st) (data p) else capabilities st),
        connected := (if loose_eq (status p) ''250'' then True else connected st),
        outcomes := outcomes st @
           [(P_helo, if loose_eq (status p) ''250'' then Success (Some p) else Failure (Some p))] \<rparr>)"
  using assms
  by (simp add: and_then_Inr helo_def send_ok on_packet_def fire_def helo_callback_def
        handshake_callback_def emitSuccess_def emitError_def CRLF_def)

lemma ehlo_run:
  assumes "packet_listeners st = []" "socket st = Some sk"
  shows "and_then (ehlo User st) (on_packet p) =
     Inr (st\<lparr> waiting := False,
        socket := Some (sk\<lparr> written := written sk @ [''EHLO '' @ host_arg st @ [CHR 0x0D, CHR 0x0A]] \<rparr>),
        capabilities := (if loose_eq (status p) ''250''
           then parseCapabilities (capabilities st) (data p) else capabilities st),
        connected := (if loose_eq (status p) ''250'' then True else connected st),
        outcomes := outcomes st @
           [(P_ehlo, if loose_eq (status p) ''250'' then Success (Some p) else Failure (Some p))] \<rparr>)"
  using assms
  by (simp add: and_then_Inr ehlo_def send_ok on_packet_def fire_def ehlo_callback_def
        handshake_callback_def emitSuccess_def emitError_def CRLF_def)

text \<open>A successful handshake, by either verb, leaves the session ready for the next command.\<close>

lemma handshake_reply:
  assumes "h = helo User \<or> h = ehlo User" "packet_listeners st = []" "socket st = Some sk"
    "loose_eq (status p) ''250''"
  shows "\<exists>st' sk'. and_then (h st) (on_packet p) = Inr st' \<and> packet_listeners st' = [] \<and>
     socket st' = Some sk' \<and> capabilities st' = parseCapabilities (capabilities st) (data p)"
  using assms(1)
proof
  assume "h = helo User"
  then show ?thesis using helo_run[OF assms(2,3), of p] assms(2,4) by simp
next
  assume "h = ehlo User"
  then show ?thesis using ehlo_run[OF assms(2,3), of p] assms(2,4) by simp
qed

text \<open>The greeting: the first packet after \<^verbatim>\<open>connect\<close>, with status 220.\<close>

lemma greeting_run:
  assumes "packet_listeners st = []" "loose_eq (status g) ''220''"
  shows "on_packet g (connect prt h sk st) =
     Inr (st\<lparr> port := Some prt, host := Some h,
        esmtp := (esmtp st \<or> regex_test_i ''ESMTP'' (array_toString (data g))),
        waiting := True,
        packet_listeners :=
          [Sent (if esmtp st \<or> regex_test_i ''ESMTP'' (array_toString (data g)) then EHLO else HELO)
             (Connect g)],
        socket := Some (sk\<lparr> written := written sk @
           [(if esmtp st \<or> regex_test_i ''ESMTP'' (array_toString (data g))
             then ''EHLO '' else ''HELO '') @ h @ [CHR 0x0D, CHR 0x0A]] \<rparr>) \<rparr>)"
  using assms
  by (cases "regex_test_i ''ESMTP'' (array_toString (data g))"; cases "esmtp st")
     (simp_all add: connect_def on_packet_def fire_def handshake_def helo_def ehlo_def send_ok
        host_arg_def CRLF_def Let_def)

text \<open>Without a listener a packet changes nothing; an idle session ignores every event.\<close>

lemma on_packet_no_listener: "packet_listeners st = [] \<Longrightarrow> on_packet p st = Inr st"
  by (simp add: on_packet_def)

lemma run_packets_no_listener:
  "packet_listeners st = [] \<Longrightarrow> run (map PacketEv ps) st = Inr st"
  by (induction ps) (simp_all add: on_packet_no_listener)

lemma deliver_idle: "idle st \<Longrightarrow> deliver e st = Inr st"
  by (cases e) (auto simp: idle_def on_packet_def on_drain_def on_tick_def split: option.splits)

lemma run_idle: "idle st \<Longrightarrow> run es st = Inr st"
  by (induction es) (simp_all add: deliver_idle)

text \<open>The reply to the handshake that the greeting started.\<close>

lemma handshake_reply_after_greeting:
  assumes "packet_listeners st = [Sent v (Connect g)]" "v = HELO \<or> v = EHLO"
  shows "\<exists>st'. on_packet p st = Inr st' \<and> packet_listeners st' = [] \<and>
           esmtp st' = esmtp st \<and> socket st' = socket st"
  using assms
  by (auto simp: on_packet_def fire_def helo_callback_def ehlo_callback_def
        handshake_callback_def emitSuccess_def emitError_def Let_def)

section \<open>Facts about the composite data operation\<close>

lemma data_begin_run:
  assumes "packet_listeners st = []" "socket st = Some sk"
  shows "and_then (data_op payload st) (on_packet p1) =
     (if loose_eq (status p1) ''354'' then
        Inr (st\<lparr> waiting := False,
          socket := Some (sk\<lparr> written := written sk @ [''DATA'' @ [CHR 0x0D, CHR 0x0A], payload],
             drain_listeners := drain_listeners sk @ (if write_returns sk then [] else [Data payload]) \<rparr>),
          next_tick := next_tick st @ (if write_returns sk then [Data payload] else []),
          outcomes := outcomes st @ [(P_beginData, Success None)] \<rparr>)
      else
        Inr (st\<lparr> waiting := False,
          socket := Some (sk\<lparr> written := written sk @ [''DATA'' @ [CHR 0x0D, CHR 0x0A]] \<rparr>),
          outcomes := outcomes st @ [(P_beginData, Failure (Some p1)), (P_data, Failure (Some p1))] \<rparr>))"
  using assms
  by (simp add: and_then_Inr data_op_def beginData_def send_ok on_packet_def fire_def
        beginData_callback_def sendData_def emitSuccess_def emitError_def CRLF_def Let_def)

lemma data_flush_run:
  assumes "packet_listeners st = []" "next_tick st = []" "socket st = Some sk"
    "drain_listeners sk = []" "loose_eq (status p1) ''354''"
  shows "and_then (and_then (data_op payload st) (on_packet p1))
           (deliver (if write_returns sk then TickEv else DrainEv)) =
        Inr (st\<lparr> waiting := True,
          packet_listeners := [Sent DATA_end (Data payload)],
          socket := Some (sk\<lparr> written := written sk @
             [''DATA'' @ [CHR 0x0D, CHR 0x0A], payload,
              [CHR 0x0D, CHR 0x0A, CHR ''.'', CHR 0x0D, CHR 0x0A]] \<rparr>),
          outcomes := outcomes st @ [(P_beginData, Success None), (P_sendData, Success None)] \<rparr>)"
  using assms
  by (cases "write_returns sk")
     (simp_all add: and_then_Inr data_begin_run on_tick_def on_drain_def sendData_callback_def
        endData_def send_ok emitSuccess_def CRLF_def Let_def)

lemma data_end_run:
  assumes "packet_listeners st = []" "next_tick st = []" "socket st = Some sk"
    "drain_listeners sk = []" "loose_eq (status p1) ''354''"
  shows "and_then (data_op payload st)
           (run [PacketEv p1, (if write_returns sk then TickEv else DrainEv), PacketEv p2]) =
        Inr (st\<lparr> waiting := False,
          socket := Some (sk\<lparr> written := written sk @
             [''DATA'' @ [CHR 0x0D, CHR 0x0A], payload,
              [CHR 0x0D, CHR 0x0A, CHR ''.'', CHR 0x0D, CHR 0x0A]] \<rparr>),
          outcomes := outcomes st @ [(P_beginData, Success None), (P_sendData, Success None)] @
            (if loose_eq (status p2) ''250'' then [(P_endData, Success None), (P_data, Success None)]
             else [(P_endData, Failure (Some p2)), (P_data, Failure (Some p2))]) \<rparr>)"
proof -
  have "and_then (data_op payload st)
           (run [PacketEv p1, (if write_returns sk then TickEv else DrainEv), PacketEv p2]) =
        and_then (and_then (and_then (data_op payload st) (on_packet p1))
           (deliver (if write_returns sk then TickEv else DrainEv))) (on_packet p2)"
    by (cases "data_op payload st") (auto split: sum.splits simp: and_then_def)
  with assms(1) show ?thesis
    by (simp add: and_then_Inr data_flush_run[OF assms] on_packet_def fire_def endData_callback_def
          emitSuccess_def emitError_def)
qed

lemma data_refused_run:
  assumes "packet_listeners st = []" "next_tick st = []" "socket st = Some sk"
    "drain_listeners sk = []" "\<not> loose_eq (status p1) ''354''"
  shows "and_then (data_op payload st) (run (PacketEv p1 # evs)) =
        Inr (st\<lparr> waiting := False,
          socket := Some (sk\<lparr> written := written sk @ [''DATA'' @ [CHR 0x0D, CHR 0x0A]] \<rparr>),
          outcomes := outcomes st @ [(P_beginData, Failure (Some p1)), (P_data, Failure (Some p1))] \<rparr>)"
proof -
  let ?st' = "st\<lparr> waiting := False,
          socket := Some (sk\<lparr> written := written sk @ [''DATA'' @ [CHR 0x0D, CHR 0x0A]] \<rparr>),
          outcomes := outcomes st @ [(P_beginData, Failure (Some p1)), (P_data, Failure (Some p1))] \<rparr>"
  have first: "and_then (data_op payload st) (on_packet p1) = Inr ?st'"
    using assms by (simp add: data_begin_run)
  have "idle ?st'"
    using assms by (simp add: idle_def)
  then have rest: "run evs ?st' = Inr ?st'"
    by (rule run_idle)
  have "and_then (data_op payload st) (run (PacketEv p1 # evs)) =
        and_then (and_then (data_op payload st) (on_packet p1)) (run evs)"
    by (cases "data_op payload st") (auto split: sum.splits simp: and_then_def)
  also have "\<dots> = run evs ?st'"
    by (simp only: first and_then_Inr)
  also have "\<dots> = Inr ?st'"
    by (rule rest)
  finally show ?thesis .
qed

section \<open>Facts about the reply assembler\<close>

lemma take_line_append:
  "take_line s = Some (l, r) \<Longrightarrow> take_line (s @ t) = Some (l, r @ t)"
  by (induction s arbitrary: l r rule: take_line.induct) (auto split: if_splits option.splits)

lemma split_lines_None: "take_line s = None \<Longrightarrow> split_lines s = ([], s)"
  by (subst split_lines.simps) simp

lemma split_lines_Some:
  "take_line s = Some (l, r) \<Longrightarrow> split_lines s = (l # fst (split_lines r), snd (split_lines r))"
  by (subst split_lines.simps) (simp add: case_prod_beta)

text \<open>The retained rest never holds a complete line.\<close>

lemma split_lines_rest: "take_line (snd (split_lines s)) = None"
proof (induction s rule: split_lines.induct)
  case (1 s)
  show ?case
  proof (cases "take_line s")
    case None
    then show ?thesis by (simp add: split_lines_None)
  next
    case (Some lr)
    obtain l r where lr: "lr = (l, r)" by (cases lr)
    show ?thesis using 1[OF Some lr[symmetric]] Some lr by (simp add: split_lines_Some)
  qed
qed

text \<open>Splitting a longer buffer: the lines of the front, then those of its rest with the back.\<close>

lemma split_lines_append:
  "split_lines (s @ t) =
     (fst (split_lines s) @ fst (split_lines (snd (split_lines s) @ t)),
      snd (split_lines (snd (split_lines s) @ t)))"
proof (induction s rule: split_lines.induct)
  case (1 s)
  show ?case
  proof (cases "take_line s")
    case None
    then show ?thesis by (simp add: split_lines_None)
  next
    case (Some lr)
    obtain l r where lr: "lr = (l, r)" by (cases lr)
    have st: "take_line (s @ t) = Some (l, r @ t)"
      using Some lr by (simp add: take_line_append)
    show ?thesis
      using 1[OF Some lr[symmetric]] Some lr
      by (simp add: split_lines_Some[OF st] split_lines_Some[of s l r])
  qed
qed

lemma fold_add_line_out:
  "fold add_line ls (pend, out) =
     (fst (fold add_line ls (pend, [])), out @ snd (fold add_line ls (pend, [])))"
proof (induction ls arbitrary: pend out)
  case Nil
  then show ?case by simp
next
  case (Cons l ls)
  show ?case
  proof (cases "is_continuation l")
    case True
    then show ?thesis
      using Cons[of "pend @ [drop 4 l]" out] Cons[of "pend @ [drop 4 l]" "[]"] by simp
  next
    case False
    then show ?thesis
      using Cons[of "[]" "out @ [\<lparr> status = StatusStr (take 3 l), data = pend @ [drop 4 l] \<rparr>]"]
        Cons[of "[]" "[\<lparr> status = StatusStr (take 3 l), data = pend @ [drop 4 l] \<rparr>]"]
      by simp
  qed
qed

lemma fold_add_line_pair:
  "fold add_line ls x =
     (fst (fold add_line ls (fst x, [])), snd x @ snd (fold add_line ls (fst x, [])))"
  using fold_add_line_out[of ls "fst x" "snd x"] by simp

text \<open>Feeding two pieces at once is feeding them one after the other.\<close>

lemma feed_append:
  "feed (s @ t) a =
     (fst (feed t (fst (feed s a))), snd (feed s a) @ snd (feed t (fst (feed s a))))"
proof -
  define ls1 where "ls1 = fst (split_lines (buffer a @ s))"
  define r1 where "r1 = snd (split_lines (buffer a @ s))"
  define ls2 where "ls2 = fst (split_lines (r1 @ t))"
  define r2 where "r2 = snd (split_lines (r1 @ t))"
  define x1 where "x1 = fold add_line ls1 (pending a, [])"
  define x2 where "x2 = fold add_line ls2 (fst x1, [])"
  have sp: "split_lines (buffer a @ s @ t) = (ls1 @ ls2, r2)"
    using split_lines_append[of "buffer a @ s" t] by (simp add: ls1_def r1_def ls2_def r2_def)
  have f1: "feed s a = (\<lparr> buffer = r1, pending = fst x1 \<rparr>, snd x1)"
    by (simp add: feed_def case_prod_beta ls1_def r1_def x1_def)
  have f2: "feed t \<lparr> buffer = r1, pending = fst x1 \<rparr> = (\<lparr> buffer = r2, pending = fst x2 \<rparr>, snd x2)"
    by (simp add: feed_def case_prod_beta ls2_def r2_def x2_def)
  have "fold add_line (ls1 @ ls2) (pending a, []) = fold add_line ls2 x1"
    by (simp add: x1_def)
  also have "\<dots> = (fst x2, snd x1 @ snd x2)"
    unfolding x2_def by (rule fold_add_line_pair)
  finally have f12: "fold add_line (ls1 @ ls2) (pending a, []) = (fst x2, snd x1 @ snd x2)" .
  have "feed (s @ t) a = (\<lparr> buffer = r2, pending = fst x2 \<rparr>, snd x1 @ snd x2)"
    unfolding feed_def sp Let_def prod.case f12 by simp
  then show ?thesis by (simp add: f1 f2)
qed

lemma feed_Nil: "take_line (buffer a) = None \<Longrightarrow> feed [] a = (a, [])"
  by (simp add: feed_def split_lines_None)

lemma feed_buffer: "take_line (buffer (fst (feed s a))) = None"
  by (simp add: feed_def case_prod_beta split_lines_rest)

lemma feed_all_concat:
  "take_line (buffer a) = None \<Longrightarrow> feed_all chunks a = feed (concat chunks) a"
proof (induction chunks arbitrary: a)
  case Nil
  then show ?case by (simp add: feed_Nil)
next
  case (Cons c cs)
  have "feed_all cs (fst (feed c a)) = feed (concat cs) (fst (feed c a))"
    by (rule Cons.IH) (rule feed_buffer)
  then show ?case
    by (simp add: case_prod_beta feed_append)
qed

section \<open>Capability parsing (claims C1 and C2)\<close>

text \<open>
  The reply lines of the specification's example, parsed into an empty capabilities
  object: the value stored under \<^verbatim>\<open>SIZE\<close> is the whole line
  \<^verbatim>\<open>SIZE 10485760\<close>, since \<^verbatim>\<open>item.join(" ")\<close> joins all tokens, the keyword
  included. The result is therefore not the mapping with the remainder
  \<^verbatim>\<open>10485760\<close> that claim C1 names. And a line whose first token is
  \<^verbatim>\<open>__proto__\<close> stores no property at all, so not every first token becomes
  a key.
\<close>

theorem parseCapabilities_value_not_remainder:
  "parseCapabilities Map.empty [''mail.example.com'', ''SIZE 10485760'', ''8BITMIME''] ''SIZE''
     = Some (CapStr ''SIZE 10485760'')
   \<and> parseCapabilities Map.empty [''mail.example.com'', ''SIZE 10485760'', ''8BITMIME'']
     \<noteq> [''SIZE'' \<mapsto> CapStr ''10485760'', ''8BITMIME'' \<mapsto> CapTrue]
   \<and> parseCapabilities Map.empty [''mail.example.com'', ''__proto__ 1''] = Map.empty"
proof (intro conjI notI)
  show v: "parseCapabilities Map.empty [''mail.example.com'', ''SIZE 10485760'', ''8BITMIME''] ''SIZE''
     = Some (CapStr ''SIZE 10485760'')"
    by (simp add: parseCapabilities_lookup)
  show "parseCapabilities Map.empty [''mail.example.com'', ''__proto__ 1''] = Map.empty"
    by (rule ext) (simp add: parseCapabilities_lookup)
  assume "parseCapabilities Map.empty [''mail.example.com'', ''SIZE 10485760'', ''8BITMIME'']
     = [''SIZE'' \<mapsto> CapStr ''10485760'', ''8BITMIME'' \<mapsto> CapTrue]"
  then have "parseCapabilities Map.empty [''mail.example.com'', ''SIZE 10485760'', ''8BITMIME''] ''SIZE''
     = Some (CapStr ''10485760'')"
    by simp
  with v show False by simp
qed

text \<open>
  Claim C1, as the code has it. After a HELO or EHLO reply with status 250 the
  capabilities are the result of \<^verbatim>\<open>parseCapabilities\<close> on the reply's lines.
  Parsing goes through every line but the first; a line is split on spaces and its
  first token is the key, unless that token is \<^verbatim>\<open>__proto__\<close>: the object ignores
  that assignment and the line stores nothing. Under any other key the last such line
  decides: the stored value is the whole line, keyword included (its tokens rejoined
  with single spaces give the line back), when the line has more than one token, and
  the flag \<^verbatim>\<open>true\<close> otherwise; a key that no line names keeps its earlier entry.
  On an empty capabilities object the example lines give
  \<^verbatim>\<open>{SIZE: "SIZE 10485760", "8BITMIME": true}\<close>.
\<close>

theorem parseCapabilities_stores_whole_line:
  "(loose_eq (status p) ''250'' \<longrightarrow>
      capabilities (helo_callback cl p st) = parseCapabilities (capabilities st) (data p)
      \<and> capabilities (ehlo_callback cl p st) = parseCapabilities (capabilities st) (data p))
   \<and> parseCapabilities caps ls k =
       (if k = ''__proto__'' then caps k
        else case find (\<lambda>l. hd (str_split (CHR '' '') l) = k) (rev (tl ls)) of
          None \<Rightarrow> caps k
        | Some l \<Rightarrow> Some (if 1 < length (str_split (CHR '' '') l) then CapStr l else CapTrue))
   \<and> array_join '' '' (str_split (CHR '' '') l) = l
   \<and> parseCapabilities Map.empty [''mail.example.com'', ''SIZE 10485760'', ''8BITMIME'']
       = [''SIZE'' \<mapsto> CapStr ''SIZE 10485760'', ''8BITMIME'' \<mapsto> CapTrue]"
proof (intro conjI impI)
  assume ok: "loose_eq (status p) ''250''"
  show "capabilities (helo_callback cl p st) = parseCapabilities (capabilities st) (data p)"
    using ok by (simp add: helo_callback_def handshake_callback_def emitSuccess_def Let_def
        split: caller.splits)
  show "capabilities (ehlo_callback cl p st) = parseCapabilities (capabilities st) (data p)"
    using ok by (simp add: ehlo_callback_def handshake_callback_def emitSuccess_def Let_def
        split: caller.splits)
next
  show "parseCapabilities caps ls k =
       (if k = ''__proto__'' then caps k
        else case find (\<lambda>l. hd (str_split (CHR '' '') l) = k) (rev (tl ls)) of
          None \<Rightarrow> caps k
        | Some l \<Rightarrow> Some (if 1 < length (str_split (CHR '' '') l) then CapStr l else CapTrue))"
    by (rule parseCapabilities_lookup)
next
  show "array_join '' '' (str_split (CHR '' '') l) = l"
    using join_split[of "CHR '' ''" l] by simp
next
  show "parseCapabilities Map.empty [''mail.example.com'', ''SIZE 10485760'', ''8BITMIME'']
       = [''SIZE'' \<mapsto> CapStr ''SIZE 10485760'', ''8BITMIME'' \<mapsto> CapTrue]"
    by (rule ext) (simp add: parseCapabilities_lookup)
qed

theorem parseCapabilities_stores_whole_line_witness:
  "loose_eq (StatusStr ''250'') ''250''
   \<and> capabilities (ehlo_callback User
        \<lparr> status = StatusStr ''250'', data = [''mail.example.com'', ''SIZE 10485760'', ''8BITMIME''] \<rparr>
        new_Client)
     = [''SIZE'' \<mapsto> CapStr ''SIZE 10485760'', ''8BITMIME'' \<mapsto> CapTrue]
   \<and> parseCapabilities [''AUTH'' \<mapsto> CapStr ''AUTH PLAIN'']
        [''mail.example.com'', ''__proto__ 1'', ''PIPELINING'', ''AUTH LOGIN'', ''AUTH''] ''AUTH''
     = Some CapTrue
   \<and> parseCapabilities [''AUTH'' \<mapsto> CapStr ''AUTH PLAIN'']
        [''mail.example.com'', ''__proto__ 1'', ''PIPELINING'', ''AUTH LOGIN'', ''AUTH''] ''__proto__''
     = None"
proof -
  let ?p = "\<lparr> status = StatusStr ''250'', data = [''mail.example.com'', ''SIZE 10485760'', ''8BITMIME''] \<rparr>"
  let ?caps = "[''AUTH'' \<mapsto> CapStr ''AUTH PLAIN'']"
  let ?ls = "[''mail.example.com'', ''__proto__ 1'', ''PIPELINING'', ''AUTH LOGIN'', ''AUTH'']"
  note th = parseCapabilities_stores_whole_line[of ?p User new_Client Map.empty "[]" "[]" "[]"]
  have ok: "loose_eq (status ?p) ''250''" by simp
  have a: "capabilities (ehlo_callback User ?p new_Client) = parseCapabilities (capabilities new_Client) (data ?p)"
    using conjunct1[OF th] ok by blast
  have b: "parseCapabilities Map.empty [''mail.example.com'', ''SIZE 10485760'', ''8BITMIME'']
       = [''SIZE'' \<mapsto> CapStr ''SIZE 10485760'', ''8BITMIME'' \<mapsto> CapTrue]"
    using th by blast
  have c: "parseCapabilities ?caps ?ls ''AUTH'' = Some CapTrue"
    using conjunct1[OF conjunct2[OF
        parseCapabilities_stores_whole_line[of ?p User new_Client ?caps ?ls "''AUTH''" "[]"]]]
    by simp
  have d: "parseCapabilities ?caps ?ls ''__proto__'' = None"
    using conjunct1[OF conjunct2[OF
        parseCapabilities_stores_whole_line[of ?p User new_Client ?caps ?ls "''__proto__''" "[]"]]]
    by simp
  show ?thesis using a b c d by (simp add: new_Client_def)
qed

text \<open>
  A session that receives an ESMTP greeting, a first EHLO reply advertising
  \<^verbatim>\<open>SIZE\<close>, and then a second EHLO reply advertising only \<^verbatim>\<open>8BITMIME\<close>: the
  capabilities still hold \<^verbatim>\<open>SIZE\<close> afterwards, so they are not the mapping built
  from the second reply alone, as claim C2 has it.
\<close>

theorem second_handshake_keeps_old_capability:
  "observe capabilities
     (and_then (and_then (and_then
        (on_packet \<lparr> status = StatusStr ''220'', data = [''mx.example.com ESMTP ready''] \<rparr>
           (connect 25 ''mx.example.com'' new_socket new_Client))
        (on_packet \<lparr> status = StatusStr ''250'', data = [''mx.example.com'', ''SIZE 10485760''] \<rparr>))
        (ehlo User))
        (on_packet \<lparr> status = StatusStr ''250'', data = [''mx.example.com'', ''8BITMIME''] \<rparr>))
   = Some [''SIZE'' \<mapsto> CapStr ''SIZE 10485760'', ''8BITMIME'' \<mapsto> CapTrue]
   \<and> [''SIZE'' \<mapsto> CapStr ''SIZE 10485760'', ''8BITMIME'' \<mapsto> CapTrue]
     \<noteq> parseCapabilities Map.empty [''mx.example.com'', ''8BITMIME'']"
proof (intro conjI notI)
  have caps: "parseCapabilities (parseCapabilities Map.empty [''mx.example.com'', ''SIZE 10485760''])
       [''mx.example.com'', ''8BITMIME'']
     = [''SIZE'' \<mapsto> CapStr ''SIZE 10485760'', ''8BITMIME'' \<mapsto> CapTrue]"
    by (rule ext) (simp add: parseCapabilities_lookup)
  show "observe capabilities
     (and_then (and_then (and_then
        (on_packet \<lparr> status = StatusStr ''220'', data = [''mx.example.com ESMTP ready''] \<rparr>
           (connect 25 ''mx.example.com'' new_socket new_Client))
        (on_packet \<lparr> status = StatusStr ''250'', data = [''mx.example.com'', ''SIZE 10485760''] \<rparr>))
        (ehlo User))
        (on_packet \<lparr> status = StatusStr ''250'', data = [''mx.example.com'', ''8BITMIME''] \<rparr>))
   = Some [''SIZE'' \<mapsto> CapStr ''SIZE 10485760'', ''8BITMIME'' \<mapsto> CapTrue]"
    by (simp add: session_defs caps)
next
  assume "[''SIZE'' \<mapsto> CapStr ''SIZE 10485760'', ''8BITMIME'' \<mapsto> CapTrue]
     = parseCapabilities Map.empty [''mx.example.com'', ''8BITMIME'']"
  then have "[''SIZE'' \<mapsto> CapStr ''SIZE 10485760'', ''8BITMIME'' \<mapsto> CapTrue] ''SIZE''
     = parseCapabilities Map.empty [''mx.example.com'', ''8BITMIME''] ''SIZE''"
    by simp
  then show False by (simp add: parseCapabilities_lookup)
qed

text \<open>
  Claim C2, as the code has it. \<^verbatim>\<open>parseCapabilities\<close> assigns into the object
  the session already holds and nothing resets that object. After two successful
  handshakes (each HELO or EHLO, each answered with status 250) the capabilities are
  the earlier mapping, overridden by the entries of the first reply, overridden by the
  entries of the second reply: keys of the second reply take their new values, every
  other key keeps what it had before.
\<close>

theorem second_handshake_merges_capabilities:
  assumes "h1 = helo User \<or> h1 = ehlo User" and "h2 = helo User \<or> h2 = ehlo User"
    and "packet_listeners st = []" and "socket st = Some sk"
    and "loose_eq (status p1) ''250''" and "loose_eq (status p2) ''250''"
  shows "\<exists>st'. and_then (and_then (and_then (h1 st) (on_packet p1)) h2) (on_packet p2) = Inr st'
     \<and> capabilities st' =
         capabilities st ++ parseCapabilities Map.empty (data p1) ++ parseCapabilities Map.empty (data p2)"
proof -
  obtain st1 sk1 where s1: "and_then (h1 st) (on_packet p1) = Inr st1" "packet_listeners st1 = []"
      "socket st1 = Some sk1" "capabilities st1 = parseCapabilities (capabilities st) (data p1)"
    using handshake_reply[OF assms(1) assms(3) assms(4) assms(5)] by blast
  obtain st2 where s2: "and_then (h2 st1) (on_packet p2) = Inr st2"
      "capabilities st2 = parseCapabilities (capabilities st1) (data p2)"
    using handshake_reply[OF assms(2) s1(2) s1(3) assms(6)] by blast
  have "and_then (and_then (and_then (h1 st) (on_packet p1)) h2) (on_packet p2) = Inr st2"
    by (simp only: s1(1) and_then_Inr s2(1))
  moreover have "capabilities st2 =
      capabilities st ++ parseCapabilities Map.empty (data p1) ++ parseCapabilities Map.empty (data p2)"
    using s1(4) s2(2)
      parseCapabilities_add[of "capabilities st" "data p1"]
      parseCapabilities_add[of "parseCapabilities (capabilities st) (data p1)" "data p2"]
    by simp
  ultimately show ?thesis by blast
qed

theorem second_handshake_merges_capabilities_witness:
  "observe (\<lambda>st. capabilities st ''SIZE'')
     (and_then (and_then (and_then
        (ehlo User (new_Client\<lparr> socket := Some new_socket \<rparr>))
        (on_packet \<lparr> status = StatusStr ''250'', data = [''mx.example.com'', ''SIZE 10485760''] \<rparr>))
        (helo User))
        (on_packet \<lparr> status = StatusNum 250, data = [''mx.example.com'', ''8BITMIME''] \<rparr>))
   = Some (Some (CapStr ''SIZE 10485760''))"
proof -
  let ?c = "new_Client\<lparr> socket := Some new_socket \<rparr>"
  let ?p1 = "\<lparr> status = StatusStr ''250'', data = [''mx.example.com'', ''SIZE 10485760''] \<rparr>"
  let ?p2 = "\<lparr> status = StatusNum 250, data = [''mx.example.com'', ''8BITMIME''] \<rparr>"
  have h: "packet_listeners ?c = []" "socket ?c = Some new_socket"
    "loose_eq (status ?p1) ''250''" "loose_eq (status ?p2) ''250''"
    by (simp_all add: new_Client_def to_number_def)
  obtain st' where
    "and_then (and_then (and_then (ehlo User ?c) (on_packet ?p1)) (helo User)) (on_packet ?p2) = Inr st'"
    "capabilities st' =
       capabilities ?c ++ parseCapabilities Map.empty (data ?p1) ++ parseCapabilities Map.empty (data ?p2)"
    using second_handshake_merges_capabilities[OF disjI2[OF refl] disjI1[OF refl] h] by blast
  then show ?thesis
    by (simp add: observe_def new_Client_def map_add_def parseCapabilities_lookup)
qed

section \<open>MAIL (claim C3)\<close>

text \<open>
  Claim C3. On a session with a socket and no reply outstanding, \<^verbatim>\<open>mail(address)\<close>
  writes exactly the line \<^verbatim>\<open>MAIL FROM: <address>\<close> followed by CRLF. When the
  next packet arrives the promise is resolved: with success exactly when the packet's
  status is 250 (as the string or as the number), and otherwise with a failure that
  carries the packet, that is its status and its lines.
\<close>

theorem mail_writes_line_and_resolves:
  assumes "packet_listeners st = []" and "socket st = Some sk"
  shows "mail address st =
      Inr (st\<lparr> waiting := True, packet_listeners := [Sent MAIL User],
        socket := Some (sk\<lparr> written := written sk @
           [''MAIL FROM: <'' @ address @ ''>'' @ [CHR 0x0D, CHR 0x0A]] \<rparr>) \<rparr>)
    \<and> and_then (mail address st) (on_packet p) =
      Inr (st\<lparr> waiting := False,
        socket := Some (sk\<lparr> written := written sk @
           [''MAIL FROM: <'' @ address @ ''>'' @ [CHR 0x0D, CHR 0x0A]] \<rparr>),
        outcomes := outcomes st @
           [(P_mail, if loose_eq (status p) ''250'' then Success (Some p) else Failure (Some p))] \<rparr>)
    \<and> loose_eq (status p) ''250'' = (status p = StatusStr ''250'' \<or> status p = StatusNum 250)"
proof (intro conjI)
  show "mail address st =
      Inr (st\<lparr> waiting := True, packet_listeners := [Sent MAIL User],
        socket := Some (sk\<lparr> written := written sk @
           [''MAIL FROM: <'' @ address @ ''>'' @ [CHR 0x0D, CHR 0x0A]] \<rparr>) \<rparr>)"
    using assms by (simp add: mail_def send_ok CRLF_def)
  show "and_then (mail address st) (on_packet p) =
      Inr (st\<lparr> waiting := False,
        socket := Some (sk\<lparr> written := written sk @
           [''MAIL FROM: <'' @ address @ ''>'' @ [CHR 0x0D, CHR 0x0A]] \<rparr>),
        outcomes := outcomes st @
           [(P_mail, if loose_eq (status p) ''250'' then Success (Some p) else Failure (Some p))] \<rparr>)"
    using assms by (rule mail_run)
  show "loose_eq (status p) ''250'' = (status p = StatusStr ''250'' \<or> status p = StatusNum 250)"
    by (rule loose_eq_250)
qed

theorem mail_writes_line_and_resolves_witness:
  "observe (\<lambda>st. (map_option written (socket st), outcomes st))
     (and_then (mail ''user@example.com'' (new_Client\<lparr> socket := Some new_socket \<rparr>))
        (on_packet \<lparr> status = StatusStr ''550'', data = [''mailbox unavailable''] \<rparr>))
   = Some (Some [''MAIL FROM: <user@example.com>'' @ [CHR 0x0D, CHR 0x0A]],
           [(P_mail, Failure (Some \<lparr> status = StatusStr ''550'', data = [''mailbox unavailable''] \<rparr>))])"
proof -
  let ?c = "new_Client\<lparr> socket := Some new_socket \<rparr>"
  have h: "packet_listeners ?c = []" "socket ?c = Some new_socket"
    by (simp_all add: new_Client_def)
  note th = mail_writes_line_and_resolves[OF h, of "''user@example.com''"
      "\<lparr> status = StatusStr ''550'', data = [''mailbox unavailable''] \<rparr>"]
  show ?thesis
    using conjunct1[OF conjunct2[OF th]] by (simp add: observe_def new_Client_def new_socket_def)
qed

section \<open>QUIT (claims C4, C5 and C10)\<close>

text \<open>
  Claim C4. The reply to QUIT closes the transport exactly when its status is 221, and
  then the promise is resolved with success; on any other status the transport is left
  as it was and the promise is resolved with a failure.
\<close>

theorem quit_closes_transport_only_on_221:
  assumes "packet_listeners st = []" and "socket st = Some sk"
  shows "and_then (quit st) (on_packet p) =
      Inr (st\<lparr> waiting := False,
        socket := Some (sk\<lparr> written := written sk @ [''QUIT'' @ [CHR 0x0D, CHR 0x0A]],
                           ended := (ended sk \<or> loose_eq (status p) ''221'') \<rparr>),
        outcomes := outcomes st @
           [(P_quit, if loose_eq (status p) ''221'' then Success None else Failure None)] \<rparr>)
    \<and> loose_eq (status p) ''221'' = (status p = StatusStr ''221'' \<or> status p = StatusNum 221)"
  using quit_run[OF assms, of p] loose_eq_221[of "status p"] by blast

theorem quit_closes_transport_only_on_221_witness:
  "observe (\<lambda>st. (map_option ended (socket st), outcomes st))
      (and_then (quit (new_Client\<lparr> socket := Some new_socket \<rparr>))
         (on_packet \<lparr> status = StatusStr ''221'', data = [''bye''] \<rparr>))
     = Some (Some True, [(P_quit, Success None)])
   \<and> observe (\<lambda>st. (map_option ended (socket st), outcomes st))
      (and_then (quit (new_Client\<lparr> socket := Some new_socket \<rparr>))
         (on_packet \<lparr> status = StatusStr ''500'', data = [''unrecognised''] \<rparr>))
     = Some (Some False, [(P_quit, Failure None)])"
proof -
  let ?c = "new_Client\<lparr> socket := Some new_socket \<rparr>"
  have h: "packet_listeners ?c = []" "socket ?c = Some new_socket"
    by (simp_all add: new_Client_def)
  show ?thesis
    using conjunct1[OF quit_closes_transport_only_on_221[OF h, of "\<lparr> status = StatusStr ''221'', data = [''bye''] \<rparr>"]]
      conjunct1[OF quit_closes_transport_only_on_221[OF h, of "\<lparr> status = StatusStr ''500'', data = [''unrecognised''] \<rparr>"]]
    by (simp add: observe_def new_Client_def new_socket_def)
qed

text \<open>
  Claim C5 says that every verb's failure carries the reply packet. For QUIT the code
  calls \<^verbatim>\<open>promise.emitError()\<close> without an argument: a reply with status 500 to
  QUIT gives a failure that carries nothing, where the same reply to HELO, EHLO, MAIL,
  RCPT, the begin of DATA and the end of DATA gives a failure that carries the packet.
\<close>

theorem quit_failure_carries_no_packet:
  "observe outcomes
      (and_then (quit (new_Client\<lparr> socket := Some new_socket \<rparr>))
         (on_packet \<lparr> status = StatusStr ''500'', data = [''unrecognised''] \<rparr>))
     = Some [(P_quit, Failure None)]
   \<and> observe outcomes
      (and_then (helo User (new_Client\<lparr> socket := Some new_socket \<rparr>))
         (on_packet \<lparr> status = StatusStr ''500'', data = [''unrecognised''] \<rparr>))
     = Some [(P_helo, Failure (Some \<lparr> status = StatusStr ''500'', data = [''unrecognised''] \<rparr>))]
   \<and> observe outcomes
      (and_then (ehlo User (new_Client\<lparr> socket := Some new_socket \<rparr>))
         (on_packet \<lparr> status = StatusStr ''500'', data = [''unrecognised''] \<rparr>))
     = Some [(P_ehlo, Failure (Some \<lparr> status = StatusStr ''500'', data = [''unrecognised''] \<rparr>))]
   \<and> observe outcomes
      (and_then (mail ''user@example.com'' (new_Client\<lparr> socket := Some new_socket \<rparr>))
         (on_packet \<lparr> status = StatusStr ''500'', data = [''unrecognised''] \<rparr>))
     = Some [(P_mail, Failure (Some \<lparr> status = StatusStr ''500'', data = [''unrecognised''] \<rparr>))]
   \<and> observe outcomes
      (and_then (rcpt ''user@example.com'' (new_Client\<lparr> socket := Some new_socket \<rparr>))
         (on_packet \<lparr> status = StatusStr ''500'', data = [''unrecognised''] \<rparr>))
     = Some [(P_rcpt, Failure (Some \<lparr> status = StatusStr ''500'', data = [''unrecognised''] \<rparr>))]
   \<and> observe outcomes
      (and_then (beginData User (new_Client\<lparr> socket := Some new_socket \<rparr>))
         (on_packet \<lparr> status = StatusStr ''500'', data = [''unrecognised''] \<rparr>))
     = Some [(P_beginData, Failure (Some \<lparr> status = StatusStr ''500'', data = [''unrecognised''] \<rparr>))]
   \<and> observe outcomes
      (and_then (endData User (new_Client\<lparr> socket := Some new_socket \<rparr>))
         (on_packet \<lparr> status = StatusStr ''500'', data = [''unrecognised''] \<rparr>))
     = Some [(P_endData, Failure (Some \<lparr> status = StatusStr ''500'', data = [''unrecognised''] \<rparr>))]"
  by (simp add: session_defs)

text \<open>
  Claim C10. A successful QUIT (status 221) ends the socket and leaves the fields
  \<^verbatim>\<open>esmtp\<close>, \<^verbatim>\<open>capabilities\<close> and \<^verbatim>\<open>connected\<close> (and \<^verbatim>\<open>host\<close>,
  \<^verbatim>\<open>port\<close>) as they were; in particular \<^verbatim>\<open>connected\<close> is still true
  after the session has ended.
\<close>

theorem quit_success_keeps_session_fields:
  assumes "packet_listeners st = []" and "socket st = Some sk" and "loose_eq (status p) ''221''"
  shows "\<exists>st' sk'. and_then (quit st) (on_packet p) = Inr st' \<and> socket st' = Some sk' \<and> ended sk'
     \<and> esmtp st' = esmtp st \<and> capabilities st' = capabilities st \<and> connected st' = connected st
     \<and> host st' = host st \<and> port st' = port st"
  using quit_run[OF assms(1,2), of p] assms(3) by simp

theorem quit_success_keeps_session_fields_witness:
  "observe (\<lambda>st. (map_option ended (socket st), connected st, esmtp st, capabilities st ''8BITMIME''))
      (and_then
         (quit (new_Client\<lparr> socket := Some new_socket, esmtp := True, connected := True,
                  capabilities := [''8BITMIME'' \<mapsto> CapTrue] \<rparr>))
         (on_packet \<lparr> status = StatusStr ''221'', data = [''bye''] \<rparr>))
     = Some (Some True, True, True, Some CapTrue)"
proof -
  let ?c = "new_Client\<lparr> socket := Some new_socket, esmtp := True, connected := True,
                  capabilities := [''8BITMIME'' \<mapsto> CapTrue] \<rparr>"
  let ?p = "\<lparr> status = StatusStr ''221'', data = [''bye''] \<rparr>"
  have h: "packet_listeners ?c = []" "socket ?c = Some new_socket" "loose_eq (status ?p) ''221''"
    by (simp_all add: new_Client_def)
  obtain st' sk' where "and_then (quit ?c) (on_packet ?p) = Inr st'" "socket st' = Some sk'" "ended sk'"
     "esmtp st' = esmtp ?c" "capabilities st' = capabilities ?c" "connected st' = connected ?c"
    using quit_success_keeps_session_fields[OF h] by blast
  then show ?thesis by (simp add: observe_def)
qed

section \<open>The greeting and the handshake (claims C6 and C9)\<close>

text \<open>
  Claim C6. A session whose \<^verbatim>\<open>esmtp\<close> flag is still false connects and receives a
  greeting with status 220. If the packet's data contains ESMTP in any case (the test
  is on the lines joined by commas, which holds exactly when some line contains it),
  the flag becomes true and the line written is \<^verbatim>\<open>EHLO <host>\<close>; otherwise the
  flag stays false and the line written is \<^verbatim>\<open>HELO <host>\<close>. The greeting
  listener is gone afterwards: whatever packets follow, the flag and what has been
  written stay as the greeting left them. The last conjunct spells out the case
  insensitivity letter by letter: the test holds exactly when some line holds five
  consecutive characters, the first \<open>E\<close> or \<open>e\<close>, the second \<open>S\<close> or \<open>s\<close>, the
  third \<open>M\<close> or \<open>m\<close>, the fourth \<open>T\<close> or \<open>t\<close>, the fifth \<open>P\<close> or \<open>p\<close>.
\<close>

theorem greeting_selects_handshake_once:
  assumes "packet_listeners st = []" and "\<not> esmtp st" and "loose_eq (status g) ''220''"
  shows "\<exists>st'. on_packet g (connect prt h sk st) = Inr st'
     \<and> esmtp st' = regex_test_i ''ESMTP'' (array_toString (data g))
     \<and> socket st' = Some (sk\<lparr> written := written sk @
           [(if regex_test_i ''ESMTP'' (array_toString (data g)) then ''EHLO '' else ''HELO '')
              @ h @ [CHR 0x0D, CHR 0x0A]] \<rparr>)
     \<and> packet_listeners st' =
           [Sent (if regex_test_i ''ESMTP'' (array_toString (data g)) then EHLO else HELO) (Connect g)]
     \<and> (\<forall>ps. \<exists>st''. run (map PacketEv ps) st' = Inr st'' \<and> esmtp st'' = esmtp st'
            \<and> socket st'' = socket st')
     \<and> regex_test_i ''ESMTP'' (array_toString (data g)) =
          (\<exists>l \<in> set (data g). \<exists>pre mid post.
              l = pre @ mid @ post \<and> map ascii_upper mid = ''ESMTP'')
     \<and> regex_test_i ''ESMTP'' (array_toString (data g)) =
          (\<exists>l \<in> set (data g). \<exists>pre post c1 c2 c3 c4 c5.
              l = pre @ [c1, c2, c3, c4, c5] @ post
            \<and> (c1 = CHR ''E'' \<or> c1 = CHR ''e'') \<and> (c2 = CHR ''S'' \<or> c2 = CHR ''s'')
            \<and> (c3 = CHR ''M'' \<or> c3 = CHR ''m'') \<and> (c4 = CHR ''T'' \<or> c4 = CHR ''t'')
            \<and> (c5 = CHR ''P'' \<or> c5 = CHR ''p''))"
proof -
  define has where "has = regex_test_i ''ESMTP'' (array_toString (data g))"
  define st' where "st' = st\<lparr> port := Some prt, host := Some h, esmtp := has, waiting := True,
        packet_listeners := [Sent (if has then EHLO else HELO) (Connect g)],
        socket := Some (sk\<lparr> written := written sk @
           [(if has then ''EHLO '' else ''HELO '') @ h @ [CHR 0x0D, CHR 0x0A]] \<rparr>) \<rparr>"
  have first: "on_packet g (connect prt h sk st) = Inr st'"
    using greeting_run[OF assms(1) assms(3), of prt h sk] assms(2) by (simp add: st'_def has_def)
  have later: "\<exists>st''. run (map PacketEv ps) st' = Inr st'' \<and> esmtp st'' = esmtp st'
      \<and> socket st'' = socket st'" for ps
  proof (cases ps)
    case Nil
    then show ?thesis by simp
  next
    case (Cons p2 rest)
    have ls: "packet_listeners st' = [Sent (if has then EHLO else HELO) (Connect g)]"
      by (simp add: st'_def)
    have v: "(if has then EHLO else HELO) = HELO \<or> (if has then EHLO else HELO) = EHLO"
      by simp
    obtain st2 where s2: "on_packet p2 st' = Inr st2" "packet_listeners st2 = []"
        "esmtp st2 = esmtp st'" "socket st2 = socket st'"
      using handshake_reply_after_greeting[OF ls v, of p2] by blast
    have "run (map PacketEv ps) st' = run (map PacketEv rest) st2"
      using Cons s2(1) by simp
    also have "\<dots> = Inr st2"
      using s2(2) by (rule run_packets_no_listener)
    finally show ?thesis using s2(3,4) by blast
  qed
  have "esmtp st' = has"
    and "socket st' = Some (sk\<lparr> written := written sk @
           [(if has then ''EHLO '' else ''HELO '') @ h @ [CHR 0x0D, CHR 0x0A]] \<rparr>)"
    and "packet_listeners st' = [Sent (if has then EHLO else HELO) (Connect g)]"
    by (simp_all add: st'_def)
  have lines: "has = (\<exists>l \<in> set (data g). \<exists>pre mid post.
              l = pre @ mid @ post \<and> map ascii_upper mid = ''ESMTP'')"
    unfolding has_def by (rule esmtp_lines)
  have letters: "has = (\<exists>l \<in> set (data g). \<exists>pre post c1 c2 c3 c4 c5.
              l = pre @ [c1, c2, c3, c4, c5] @ post
            \<and> (c1 = CHR ''E'' \<or> c1 = CHR ''e'') \<and> (c2 = CHR ''S'' \<or> c2 = CHR ''s'')
            \<and> (c3 = CHR ''M'' \<or> c3 = CHR ''m'') \<and> (c4 = CHR ''T'' \<or> c4 = CHR ''t'')
            \<and> (c5 = CHR ''P'' \<or> c5 = CHR ''p''))"
    unfolding has_def by (rule esmtp_lines_any_case)
  show ?thesis
    unfolding has_def[symmetric]
  proof (rule exI[of _ st'], intro conjI allI)
    show "on_packet g (connect prt h sk st) = Inr st'" by (rule first)
    show "esmtp st' = has" by (simp add: st'_def)
    show "socket st' = Some (sk\<lparr> written := written sk @
           [(if has then ''EHLO '' else ''HELO '') @ h @ [CHR 0x0D, CHR 0x0A]] \<rparr>)"
      by (simp add: st'_def)
    show "packet_listeners st' = [Sent (if has then EHLO else HELO) (Connect g)]"
      by (simp add: st'_def)
    show "\<exists>st''. run (map PacketEv ps) st' = Inr st'' \<and> esmtp st'' = esmtp st'
        \<and> socket st'' = socket st'" for ps
      by (rule later)
    show "has = (\<exists>l \<in> set (data g). \<exists>pre mid post.
              l = pre @ mid @ post \<and> map ascii_upper mid = ''ESMTP'')"
      by (rule lines)
    show "has = (\<exists>l \<in> set (data g). \<exists>pre post c1 c2 c3 c4 c5.
              l = pre @ [c1, c2, c3, c4, c5] @ post
            \<and> (c1 = CHR ''E'' \<or> c1 = CHR ''e'') \<and> (c2 = CHR ''S'' \<or> c2 = CHR ''s'')
            \<and> (c3 = CHR ''M'' \<or> c3 = CHR ''m'') \<and> (c4 = CHR ''T'' \<or> c4 = CHR ''t'')
            \<and> (c5 = CHR ''P'' \<or> c5 = CHR ''p''))"
      by (rule letters)
  qed
qed

theorem greeting_selects_handshake_once_witness:
  "observe (\<lambda>st. (esmtp st, map_option written (socket st)))
     (on_packet \<lparr> status = StatusStr ''220'', data = [''mail.example.com ESMTP Ready'', ''OK''] \<rparr>
        (connect 25 ''client.example.org'' new_socket new_Client))
     = Some (True, Some [''EHLO client.example.org'' @ [CHR 0x0D, CHR 0x0A]])
   \<and> observe (\<lambda>st. (esmtp st, map_option written (socket st)))
     (on_packet \<lparr> status = StatusStr ''220'', data = [''mail.example.com Service ready''] \<rparr>
        (connect 25 ''client.example.org'' new_socket new_Client))
     = Some (False, Some [''HELO client.example.org'' @ [CHR 0x0D, CHR 0x0A]])
   \<and> observe (\<lambda>st. (esmtp st, map_option written (socket st)))
     (on_packet \<lparr> status = StatusStr ''220'', data = [''mx esmtp postfix''] \<rparr>
        (connect 25 ''client.example.org'' new_socket new_Client))
     = Some (True, Some [''EHLO client.example.org'' @ [CHR 0x0D, CHR 0x0A]])
   \<and> observe (\<lambda>st. (esmtp st, map_option written (socket st)))
     (on_packet \<lparr> status = StatusNum 220, data = [''mx.example.com'', ''ready eSmTp''] \<rparr>
        (connect 25 ''client.example.org'' new_socket new_Client))
     = Some (True, Some [''EHLO client.example.org'' @ [CHR 0x0D, CHR 0x0A]])"
proof -
  let ?g1 = "\<lparr> status = StatusStr ''220'', data = [''mail.example.com ESMTP Ready'', ''OK''] \<rparr>"
  let ?g2 = "\<lparr> status = StatusStr ''220'', data = [''mail.example.com Service ready''] \<rparr>"
  let ?g3 = "\<lparr> status = StatusStr ''220'', data = [''mx esmtp postfix''] \<rparr>"
  let ?g4 = "\<lparr> status = StatusNum 220, data = [''mx.example.com'', ''ready eSmTp''] \<rparr>"
  have h: "packet_listeners new_Client = []" "\<not> esmtp new_Client"
    by (simp_all add: new_Client_def)
  have s1: "loose_eq (status ?g1) ''220''" and s2: "loose_eq (status ?g2) ''220''"
    and s3: "loose_eq (status ?g3) ''220''"
    by simp_all
  have s4: "loose_eq (status ?g4) ''220''"
    by code_simp
  have "regex_test_i ''ESMTP'' (array_toString [''mail.example.com ESMTP Ready'', ''OK''])"
    by code_simp
  then have t1: "regex_test_i ''ESMTP'' (array_toString (data ?g1))"
    by simp
  have "\<not> regex_test_i ''ESMTP'' (array_toString [''mail.example.com Service ready''])"
    by code_simp
  then have t2: "\<not> regex_test_i ''ESMTP'' (array_toString (data ?g2))"
    by simp
  have "regex_test_i ''ESMTP'' (array_toString [''mx esmtp postfix''])"
    by code_simp
  then have t3: "regex_test_i ''ESMTP'' (array_toString (data ?g3))"
    by simp
  have "regex_test_i ''ESMTP'' (array_toString [''mx.example.com'', ''ready eSmTp''])"
    by code_simp
  then have t4: "regex_test_i ''ESMTP'' (array_toString (data ?g4))"
    by simp
  obtain a where a: "on_packet ?g1 (connect 25 ''client.example.org'' new_socket new_Client) = Inr a"
      "esmtp a = regex_test_i ''ESMTP'' (array_toString (data ?g1))"
      "socket a = Some (new_socket\<lparr> written := written new_socket @
           [(if regex_test_i ''ESMTP'' (array_toString (data ?g1)) then ''EHLO '' else ''HELO '')
              @ ''client.example.org'' @ [CHR 0x0D, CHR 0x0A]] \<rparr>)"
    using greeting_selects_handshake_once[OF h s1, of 25 "''client.example.org''" new_socket] by blast
  obtain b where b: "on_packet ?g2 (connect 25 ''client.example.org'' new_socket new_Client) = Inr b"
      "esmtp b = regex_test_i ''ESMTP'' (array_toString (data ?g2))"
      "socket b = Some (new_socket\<lparr> written := written new_socket @
           [(if regex_test_i ''ESMTP'' (array_toString (data ?g2)) then ''EHLO '' else ''HELO '')
              @ ''client.example.org'' @ [CHR 0x0D, CHR 0x0A]] \<rparr>)"
    using greeting_selects_handshake_once[OF h s2, of 25 "''client.example.org''" new_socket] by blast
  obtain c where c: "on_packet ?g3 (connect 25 ''client.example.org'' new_socket new_Client) = Inr c"
      "esmtp c = regex_test_i ''ESMTP'' (array_toString (data ?g3))"
      "socket c = Some (new_socket\<lparr> written := written new_socket @
           [(if regex_test_i ''ESMTP'' (array_toString (data ?g3)) then ''EHLO '' else ''HELO '')
              @ ''client.example.org'' @ [CHR 0x0D, CHR 0x0A]] \<rparr>)"
    using greeting_selects_handshake_once[OF h s3, of 25 "''client.example.org''" new_socket] by blast
  obtain d where d: "on_packet ?g4 (connect 25 ''client.example.org'' new_socket new_Client) = Inr d"
      "esmtp d = regex_test_i ''ESMTP'' (array_toString (data ?g4))"
      "socket d = Some (new_socket\<lparr> written := written new_socket @
           [(if regex_test_i ''ESMTP'' (array_toString (data ?g4)) then ''EHLO '' else ''HELO '')
              @ ''client.example.org'' @ [CHR 0x0D, CHR 0x0A]] \<rparr>)"
    using greeting_selects_handshake_once[OF h s4, of 25 "''client.example.org''" new_socket] by blast
  have g1: "observe (\<lambda>st. (esmtp st, map_option written (socket st)))
      (on_packet ?g1 (connect 25 ''client.example.org'' new_socket new_Client))
      = Some (True, Some [''EHLO client.example.org'' @ [CHR 0x0D, CHR 0x0A]])"
    using a t1 by (simp add: observe_def new_socket_def)
  have g2: "observe (\<lambda>st. (esmtp st, map_option written (socket st)))
      (on_packet ?g2 (connect 25 ''client.example.org'' new_socket new_Client))
      = Some (False, Some [''HELO client.example.org'' @ [CHR 0x0D, CHR 0x0A]])"
    using b t2 by (simp add: observe_def new_socket_def)
  have g3: "observe (\<lambda>st. (esmtp st, map_option written (socket st)))
      (on_packet ?g3 (connect 25 ''client.example.org'' new_socket new_Client))
      = Some (True, Some [''EHLO client.example.org'' @ [CHR 0x0D, CHR 0x0A]])"
    using c t3 by (simp add: observe_def new_socket_def)
  have g4: "observe (\<lambda>st. (esmtp st, map_option written (socket st)))
      (on_packet ?g4 (connect 25 ''client.example.org'' new_socket new_Client))
      = Some (True, Some [''EHLO client.example.org'' @ [CHR 0x0D, CHR 0x0A]])"
    using d t4 by (simp add: observe_def new_socket_def)
  show ?thesis
    using g1 g2 g3 g4 by (intro conjI)
qed

text \<open>
  Claim C9. \<^verbatim>\<open>helo()\<close> and \<^verbatim>\<open>ehlo()\<close> differ in the command word they write
  (and in the promise they resolve) and in nothing else: for the same reply packet both
  succeed exactly on status 250, both then parse the capabilities from the reply's
  lines and set \<^verbatim>\<open>connected\<close>, and both fail with the packet on any other
  status. The reply callbacks lead to the same state but for the promise named in the
  outcomes, whoever called.
\<close>

theorem helo_ehlo_differ_only_in_command_word:
  assumes "packet_listeners st = []" and "socket st = Some sk"
  shows "and_then (helo User st) (on_packet p) =
      Inr (st\<lparr> waiting := False,
        socket := Some (sk\<lparr> written := written sk @ [''HELO '' @ host_arg st @ [CHR 0x0D, CHR 0x0A]] \<rparr>),
        capabilities := (if loose_eq (status p) ''250''
           then parseCapabilities (capabilities st) (data p) else capabilities st),
        connected := (if loose_eq (status p) ''250'' then True else connected st),
        outcomes := outcomes st @
           [(P_helo, if loose_eq (status p) ''250'' then Success (Some p) else Failure (Some p))] \<rparr>)
    \<and> and_then (ehlo User st) (on_packet p) =
      Inr (st\<lparr> waiting := False,
        socket := Some (sk\<lparr> written := written sk @ [''EHLO '' @ host_arg st @ [CHR 0x0D, CHR 0x0A]] \<rparr>),
        capabilities := (if loose_eq (status p) ''250''
           then parseCapabilities (capabilities st) (data p) else capabilities st),
        connected := (if loose_eq (status p) ''250'' then True else connected st),
        outcomes := outcomes st @
           [(P_ehlo, if loose_eq (status p) ''250'' then Success (Some p) else Failure (Some p))] \<rparr>)
    \<and> ehlo_callback cl p s = (helo_callback cl p s)\<lparr> outcomes := outcomes (ehlo_callback cl p s) \<rparr>
    \<and> map snd (outcomes (ehlo_callback cl p s)) = map snd (outcomes (helo_callback cl p s))"
proof (intro conjI)
  show "ehlo_callback cl p s = (helo_callback cl p s)\<lparr> outcomes := outcomes (ehlo_callback cl p s) \<rparr>"
    by (simp add: helo_callback_def ehlo_callback_def handshake_callback_def emitSuccess_def
        emitError_def Let_def split: caller.splits)
  show "map snd (outcomes (ehlo_callback cl p s)) = map snd (outcomes (helo_callback cl p s))"
    by (simp add: helo_callback_def ehlo_callback_def handshake_callback_def emitSuccess_def
        emitError_def Let_def split: caller.splits)
qed (rule helo_run[OF assms] ehlo_run[OF assms])+

theorem helo_ehlo_differ_only_in_command_word_witness:
  "observe (\<lambda>st. (map_option written (socket st), connected st, capabilities st ''8BITMIME'', outcomes st))
      (and_then (helo User (new_Client\<lparr> socket := Some new_socket, host := Some ''client.example.org'' \<rparr>))
         (on_packet \<lparr> status = StatusStr ''250'', data = [''mx.example.com'', ''8BITMIME''] \<rparr>))
     = Some (Some [''HELO client.example.org'' @ [CHR 0x0D, CHR 0x0A]], True, Some CapTrue,
             [(P_helo, Success (Some \<lparr> status = StatusStr ''250'', data = [''mx.example.com'', ''8BITMIME''] \<rparr>))])
   \<and> observe (\<lambda>st. (map_option written (socket st), connected st, capabilities st ''8BITMIME'', outcomes st))
      (and_then (ehlo User (new_Client\<lparr> socket := Some new_socket, host := Some ''client.example.org'' \<rparr>))
         (on_packet \<lparr> status = StatusStr ''250'', data = [''mx.example.com'', ''8BITMIME''] \<rparr>))
     = Some (Some [''EHLO client.example.org'' @ [CHR 0x0D, CHR 0x0A]], True, Some CapTrue,
             [(P_ehlo, Success (Some \<lparr> status = StatusStr ''250'', data = [''mx.example.com'', ''8BITMIME''] \<rparr>))])"
proof -
  let ?c = "new_Client\<lparr> socket := Some new_socket, host := Some ''client.example.org'' \<rparr>"
  let ?p = "\<lparr> status = StatusStr ''250'', data = [''mx.example.com'', ''8BITMIME''] \<rparr>"
  have h: "packet_listeners ?c = []" "socket ?c = Some new_socket"
    by (simp_all add: new_Client_def)
  note th = helo_ehlo_differ_only_in_command_word[OF h, of ?p User new_Client]
  show ?thesis
    using conjunct1[OF th] conjunct1[OF conjunct2[OF th]]
    by (simp add: observe_def new_Client_def new_socket_def host_arg_def parseCapabilities_lookup)
qed

section \<open>The composite data operation (claim C7)\<close>

text \<open>
  Claim C7. On a session with a socket and nothing pending, \<^verbatim>\<open>data(payload)\<close>
  writes \<^verbatim>\<open>DATA\<close> with CRLF. If the reply has status 354 it writes the payload
  as it is and, once that write is through (the next tick, or the drain event when the
  buffer was full), the terminator CRLF, dot, CRLF: three writes in this order. Its
  promise succeeds exactly when the reply to the terminator has status 250, and fails
  with that packet otherwise. If the first reply is not 354, the promise fails with
  that packet and nothing more is written, whatever events follow.
\<close>

theorem data_sequences_three_writes:
  assumes "packet_listeners st = []" and "next_tick st = []" and "socket st = Some sk"
    and "drain_listeners sk = []"
  shows "(loose_eq (status p1) ''354'' \<longrightarrow>
       and_then (data_op payload st)
           (run [PacketEv p1, (if write_returns sk then TickEv else DrainEv), PacketEv p2]) =
        Inr (st\<lparr> waiting := False,
          socket := Some (sk\<lparr> written := written sk @
             [''DATA'' @ [CHR 0x0D, CHR 0x0A], payload,
              [CHR 0x0D, CHR 0x0A, CHR ''.'', CHR 0x0D, CHR 0x0A]] \<rparr>),
          outcomes := outcomes st @ [(P_beginData, Success None), (P_sendData, Success None)] @
            (if loose_eq (status p2) ''250'' then [(P_endData, Success None), (P_data, Success None)]
             else [(P_endData, Failure (Some p2)), (P_data, Failure (Some p2))]) \<rparr>))
    \<and> (\<not> loose_eq (status p1) ''354'' \<longrightarrow>
       (\<forall>evs. and_then (data_op payload st) (run (PacketEv p1 # evs)) =
        Inr (st\<lparr> waiting := False,
          socket := Some (sk\<lparr> written := written sk @ [''DATA'' @ [CHR 0x0D, CHR 0x0A]] \<rparr>),
          outcomes := outcomes st @ [(P_beginData, Failure (Some p1)), (P_data, Failure (Some p1))] \<rparr>)))"
  using data_end_run[OF assms, of p1 payload p2] data_refused_run[OF assms, of p1 payload] by blast

theorem data_sequences_three_writes_witness:
  "observe (\<lambda>st. (map_option written (socket st), outcomes st))
     (and_then (data_op ''Subject: hi'' (new_Client\<lparr> socket := Some new_socket \<rparr>))
        (run [PacketEv \<lparr> status = StatusStr ''354'', data = [''go ahead''] \<rparr>, TickEv,
              PacketEv \<lparr> status = StatusStr ''250'', data = [''queued''] \<rparr>]))
     = Some (Some [''DATA'' @ [CHR 0x0D, CHR 0x0A], ''Subject: hi'',
                   [CHR 0x0D, CHR 0x0A, CHR ''.'', CHR 0x0D, CHR 0x0A]],
             [(P_beginData, Success None), (P_sendData, Success None),
              (P_endData, Success None), (P_data, Success None)])
   \<and> observe (\<lambda>st. (map_option written (socket st), outcomes st))
     (and_then (data_op ''Subject: hi'' (new_Client\<lparr> socket := Some new_socket \<rparr>))
        (run [PacketEv \<lparr> status = StatusStr ''503'', data = [''need RCPT''] \<rparr>, TickEv, DrainEv]))
     = Some (Some [''DATA'' @ [CHR 0x0D, CHR 0x0A]],
             [(P_beginData, Failure (Some \<lparr> status = StatusStr ''503'', data = [''need RCPT''] \<rparr>)),
              (P_data, Failure (Some \<lparr> status = StatusStr ''503'', data = [''need RCPT''] \<rparr>))])"
proof -
  let ?c = "new_Client\<lparr> socket := Some new_socket \<rparr>"
  let ?ok = "\<lparr> status = StatusStr ''354'', data = [''go ahead''] \<rparr>"
  let ?no = "\<lparr> status = StatusStr ''503'', data = [''need RCPT''] \<rparr>"
  let ?fin = "\<lparr> status = StatusStr ''250'', data = [''queued''] \<rparr>"
  have h: "packet_listeners ?c = []" "next_tick ?c = []" "socket ?c = Some new_socket"
      "drain_listeners new_socket = []"
    by (simp_all add: new_Client_def new_socket_def)
  have a: "loose_eq (status ?ok) ''354''" and b: "\<not> loose_eq (status ?no) ''354''"
    by simp_all
  have tick: "(if write_returns new_socket then TickEv else DrainEv) = TickEv"
    by (simp add: new_socket_def)
  note th1 = conjunct1[OF data_sequences_three_writes[OF h, of ?ok "''Subject: hi''" ?fin], rule_format, OF a]
  note th2 = conjunct2[OF data_sequences_three_writes[OF h, of ?no "''Subject: hi''" ?fin], rule_format, OF b,
      of "[TickEv, DrainEv]"]
  show ?thesis
    using th1 th2 by (simp add: tick observe_def new_Client_def new_socket_def)
qed

section \<open>Fragmentation of the reply stream (claim C8)\<close>

text \<open>
  Claim C8. However a byte stream is cut into chunks, feeding the chunks one after
  the other to a new assembler emits the same packets, with the same status and lines
  (and leaves the same state), as feeding the whole stream at once.
\<close>

theorem feed_fragmentation_invariant:
  "feed_all chunks new_assembler = feed (concat chunks) new_assembler"
  by (rule feed_all_concat) (simp add: new_assembler_def)

theorem feed_fragmentation_invariant_witness:
  "feed_all [''220-mail.example.com ESM'', ''TP Ready'' @ [CHR 0x0D],
             [CHR 0x0A] @ ''220 OK'' @ [CHR 0x0D, CHR 0x0A] @ ''25''] new_assembler
   = (\<lparr> buffer = ''25'', pending = [] \<rparr>,
      [\<lparr> status = StatusStr ''220'', data = [''mail.example.com ESMTP Ready'', ''OK''] \<rparr>])"
proof -
  have "feed_all [''220-mail.example.com ESM'', ''TP Ready'' @ [CHR 0x0D],
             [CHR 0x0A] @ ''220 OK'' @ [CHR 0x0D, CHR 0x0A] @ ''25''] new_assembler
     = feed (concat [''220-mail.example.com ESM'', ''TP Ready'' @ [CHR 0x0D],
             [CHR 0x0A] @ ''220 OK'' @ [CHR 0x0D, CHR 0x0A] @ ''25'']) new_assembler"
    by (rule feed_fragmentation_invariant)
  also have "\<dots> = (\<lparr> buffer = ''25'', pending = [] \<rparr>,
      [\<lparr> status = StatusStr ''220'', data = [''mail.example.com ESMTP Ready'', ''OK''] \<rparr>])"
    by (simp add: feed_def new_assembler_def split_lines.simps is_continuation_def)
  finally show ?thesis .
qed

end
